theory Spec2Isabelle
  imports Complex_Main "HOL-Library.Monad_Syntax"
begin

section \<open>A fragment of numpy\<close>

text \<open>
  The sources work on numpy arrays.  An array is modelled by its shape (the tuple
  \<^verbatim>\<open>A.shape\<close>) and by the function from index lists to elements.  Only the values at
  indices inside the shape are meaningful.  Every Python exception (a failed tuple
  unpacking, an index out of range, operands that do not broadcast, a negative
  dimension) is the result \<open>None\<close>.  Printing is not modelled, except where a claim
  speaks of it.
\<close>

record 'a ndarray =
  shape :: "nat list"
  data :: "nat list \<Rightarrow> 'a"

text \<open>\<^verbatim>\<open>np.zeros(shape)\<close>\<close>

definition zeros :: "nat list \<Rightarrow> 'a::zero ndarray" where
  "zeros sh = \<lparr>shape = sh, data = (\<lambda>_. 0)\<rparr>"

text \<open>A Python scalar, seen by numpy as an array of rank 0.\<close>

definition scalar :: "'a \<Rightarrow> 'a ndarray" where
  "scalar c = \<lparr>shape = [], data = (\<lambda>_. c)\<rparr>"

text \<open>The indices inside a shape, and all of them in row-major order.\<close>

definition inb :: "nat list \<Rightarrow> nat list \<Rightarrow> bool" where
  "inb sh idx = list_all2 (\<lambda>x n. x < n) idx sh"

fun indices :: "nat list \<Rightarrow> nat list list" where
  "indices [] = [[]]"
| "indices (n # sh) = concat (map (\<lambda>x. map ((#) x) (indices sh)) [0..<n])"

text \<open>
  One entry of an index expression \<^verbatim>\<open>A[...]\<close>: an integer, a slice \<^verbatim>\<open>lo:hi\<close>, or
  the full slice \<^verbatim>\<open>:\<close>.  As in Python, a negative integer or slice bound counts from
  the end of the axis; slice bounds are clipped to the axis, an integer outside the axis
  is an IndexError.
\<close>

datatype ix = Ix int | Sl int int | All

definition bound :: "nat \<Rightarrow> int \<Rightarrow> nat" where
  "bound n b = (if b < 0 then nat (int n + b) else min (nat b) n)"

definition index :: "nat \<Rightarrow> int \<Rightarrow> nat option" where
  "index n p =
     (if 0 \<le> p \<and> p < int n then Some (nat p)
      else if - int n \<le> p \<and> p < 0 then Some (nat (int n + p))
      else None)"

definition Ixn :: "nat \<Rightarrow> ix" where
  "Ixn k = Ix (int k)"

definition Sln :: "nat \<Rightarrow> nat \<Rightarrow> ix" where
  "Sln lo hi = Sl (int lo) (int hi)"

text \<open>
  An index expression is accepted when it has at most as many entries as the array has
  axes and every integer entry is inside its axis.  Missing trailing entries stand for
  full slices.
\<close>

fun ix_ok :: "nat list \<Rightarrow> ix list \<Rightarrow> bool" where
  "ix_ok sh [] = True"
| "ix_ok [] (i # is) = False"
| "ix_ok (n # sh) (Ix p # is) = (index n p \<noteq> None \<and> ix_ok sh is)"
| "ix_ok (n # sh) (Sl lo hi # is) = ix_ok sh is"
| "ix_ok (n # sh) (All # is) = ix_ok sh is"

text \<open>The shape of the selected region: integer entries drop their axis.\<close>

fun region :: "nat list \<Rightarrow> ix list \<Rightarrow> nat list" where
  "region sh [] = sh"
| "region [] (i # is) = []"
| "region (n # sh) (Ix p # is) = region sh is"
| "region (n # sh) (Sl lo hi # is) = (bound n hi - bound n lo) # region sh is"
| "region (n # sh) (All # is) = n # region sh is"

text \<open>From an index of the region to the index of the array.\<close>

fun embed :: "nat list \<Rightarrow> ix list \<Rightarrow> nat list \<Rightarrow> nat list" where
  "embed sh [] r = r"
| "embed (n # sh) (Ix p # is) r = the (index n p) # embed sh is r"
| "embed (n # sh) (Sl lo hi # is) (x # r) = (bound n lo + x) # embed sh is r"
| "embed (n # sh) (All # is) (x # r) = x # embed sh is r"
| "embed sh is r = []"

text \<open>
  From an index of the array to the index of the region, when the array index lies in
  the selected region.
\<close>

fun axis :: "nat \<Rightarrow> ix \<Rightarrow> nat \<Rightarrow> nat list option" where
  "axis n (Ix p) x = (if index n p = Some x then Some [] else None)"
| "axis n (Sl lo hi) x =
     (if bound n lo \<le> x \<and> x < bound n hi then Some [x - bound n lo] else None)"
| "axis n All x = (if x < n then Some [x] else None)"

fun locate :: "nat list \<Rightarrow> ix list \<Rightarrow> nat list \<Rightarrow> nat list option" where
  "locate sh [] xs = (if inb sh xs then Some xs else None)"
| "locate (n # sh) (i # is) (x # xs) =
     (case axis n i x of None \<Rightarrow> None
      | Some a \<Rightarrow> map_option ((@) a) (locate sh is xs))"
| "locate sh (i # is) xs = None"

text \<open>
  Broadcasting.  \<open>bdims sb rs\<close>: a value of shape \<open>sb\<close> can be broadcast to the shape
  \<open>rs\<close> (axes are aligned at the end, an axis of length 1 is repeated, and extra leading
  axes of the value must have length 1).  \<open>bidx sb r\<close> is the index of the value that
  is read for the index \<open>r\<close> of the broadcast result.
\<close>

definition bdims :: "nat list \<Rightarrow> nat list \<Rightarrow> bool" where
  "bdims sb rs =
     ((\<forall>d \<in> set (take (length sb - length rs) sb). d = 1) \<and>
      list_all2 (\<lambda>d n. d = n \<or> d = 1)
        (drop (length sb - length rs) sb) (drop (length rs - length sb) rs))"

definition bidx :: "nat list \<Rightarrow> nat list \<Rightarrow> nat list" where
  "bidx sb r =
     replicate (length sb - length r) 0 @
     map2 (\<lambda>d x. if d = 1 then 0 else x)
       (drop (length sb - length r) sb) (drop (length r - length sb) r)"

text \<open>\<^verbatim>\<open>A[is]\<close> read, and the assignment \<^verbatim>\<open>A[is] = B\<close>.\<close>

definition getitem :: "'a ndarray \<Rightarrow> ix list \<Rightarrow> 'a ndarray option" where
  "getitem A is =
     (if ix_ok (shape A) is
      then Some \<lparr>shape = region (shape A) is, data = (\<lambda>r. data A (embed (shape A) is r))\<rparr>
      else None)"

definition setitem :: "'a ndarray \<Rightarrow> ix list \<Rightarrow> 'a ndarray \<Rightarrow> 'a ndarray option" where
  "setitem A is B =
     (if ix_ok (shape A) is \<and> bdims (shape B) (region (shape A) is)
      then Some (A\<lparr>data := (\<lambda>x. case locate (shape A) is x of
                                   None \<Rightarrow> data A x
                                 | Some r \<Rightarrow> data B (bidx (shape B) r))\<rparr>)
      else None)"

text \<open>
  Elementwise binary operations broadcast both operands to a common shape, and fail
  (ValueError) when there is none.
\<close>

fun bshape_rev :: "nat list \<Rightarrow> nat list \<Rightarrow> nat list option" where
  "bshape_rev [] bs = Some bs"
| "bshape_rev as [] = Some as"
| "bshape_rev (a # as) (b # bs) =
     (if a = b \<or> b = 1 then map_option ((#) a) (bshape_rev as bs)
      else if a = 1 then map_option ((#) b) (bshape_rev as bs)
      else None)"

definition bshape :: "nat list \<Rightarrow> nat list \<Rightarrow> nat list option" where
  "bshape sa sb = map_option rev (bshape_rev (rev sa) (rev sb))"

definition np_binop ::
  "('a \<Rightarrow> 'a \<Rightarrow> 'a) \<Rightarrow> 'a ndarray \<Rightarrow> 'a ndarray \<Rightarrow> 'a ndarray option" where
  "np_binop f A B =
     (case bshape (shape A) (shape B) of
        None \<Rightarrow> None
      | Some sh \<Rightarrow>
          Some \<lparr>shape = sh,
                data = (\<lambda>r. f (data A (bidx (shape A) r)) (data B (bidx (shape B) r)))\<rparr>)"

text \<open>\<^verbatim>\<open>A.sum()\<close> and \<^verbatim>\<open>A.mean()\<close> over all elements.\<close>

definition np_sum :: "real ndarray \<Rightarrow> real" where
  "np_sum A = sum_list (map (data A) (indices (shape A)))"

definition np_mean :: "real ndarray \<Rightarrow> real" where
  "np_mean A = np_sum A / real (prod_list (shape A))"

text \<open>
  \<^verbatim>\<open>A[i, j, ...]\<close> with one integer for every axis reads one element.
\<close>

definition elem :: "'a ndarray \<Rightarrow> nat list \<Rightarrow> 'a option" where
  "elem A idx = (if inb (shape A) idx then Some (data A idx) else None)"

text \<open>\<^verbatim>\<open>A.flatten()\<close>: the elements in row-major order, as an array of rank 1.\<close>

definition flatten :: "'a ndarray \<Rightarrow> 'a ndarray" where
  "flatten A =
     \<lparr>shape = [length (indices (shape A))],
      data = (\<lambda>r. case r of [n] \<Rightarrow> data A (indices (shape A) ! n) | _ \<Rightarrow> data A [])\<rparr>"

text \<open>
  \<^verbatim>\<open>np.zeros\<close> on dimensions computed with Python's integers: a negative dimension is
  a ValueError.  \<^verbatim>\<open>range(n)\<close> is empty for \<open>n \<le> 0\<close>.
\<close>

definition np_zeros :: "int list \<Rightarrow> 'a::zero ndarray option" where
  "np_zeros ds = (if \<forall>d \<in> set ds. 0 \<le> d then Some (zeros (map nat ds)) else None)"

definition py_range :: "int \<Rightarrow> nat list" where
  "py_range n = [0..<nat n]"

text \<open>A \<^verbatim>\<open>for\<close> loop whose body may raise: the first failure ends the loop.\<close>

fun for_each :: "'a list \<Rightarrow> ('a \<Rightarrow> 's \<Rightarrow> 's option) \<Rightarrow> 's \<Rightarrow> 's option" where
  "for_each [] body s = Some s"
| "for_each (x # xs) body s = (case body x s of None \<Rightarrow> None | Some s' \<Rightarrow> for_each xs body s')"

section \<open>Restart rescaling: \<^verbatim>\<open>kaipy/gamera/magsphereRescale.py\<close>\<close>

definition NumG :: nat where "NumG = 4"
definition IDIR :: nat where "IDIR = 0"
definition JDIR :: nat where "JDIR = 1"
definition KDIR :: nat where "KDIR = 2"

subsection \<open>Cell volumes\<close>

text \<open>
  \<^verbatim>\<open>Volume(Xg, Yg, Zg)\<close>: the volumes of the active cells of a grid with ghosts.  The
  volume of the convex hull of the eight corners,
  \<^verbatim>\<open>scipy.spatial.ConvexHull(ijkPts).volume\<close>, is the parameter \<open>hvol\<close>, a function of
  the 8 by 3 array of points; it is \<open>None\<close> where the library raises (QhullError on points
  that do not span a volume).  Only the layer \<open>k = 0\<close> is computed and copied to every
  \<open>k\<close>.
\<close>

definition Volume_cell ::
  "(real ndarray \<Rightarrow> real option) \<Rightarrow> real ndarray \<Rightarrow> real ndarray \<Rightarrow> real ndarray \<Rightarrow>
   nat \<Rightarrow> nat \<Rightarrow> nat \<Rightarrow> real ndarray \<times> real ndarray \<Rightarrow> (real ndarray \<times> real ndarray) option" where
  "Volume_cell hvol X Y Z k j i st =
     (case st of (ijkPts, dV) \<Rightarrow>
        do {
          cx \<leftarrow> getitem X [Sln k (k + 2), Sln j (j + 2), Sln i (i + 2)];
          p0 \<leftarrow> setitem ijkPts [All, Ixn 0] (flatten cx);
          cy \<leftarrow> getitem Y [Sln k (k + 2), Sln j (j + 2), Sln i (i + 2)];
          p1 \<leftarrow> setitem p0 [All, Ixn 1] (flatten cy);
          cz \<leftarrow> getitem Z [Sln k (k + 2), Sln j (j + 2), Sln i (i + 2)];
          p2 \<leftarrow> setitem p1 [All, Ixn 2] (flatten cz);
          v \<leftarrow> hvol p2;
          dV' \<leftarrow> setitem dV [All, Ixn j, Ixn i] (scalar v);
          Some (p2, dV')
        })"

definition Volume ::
  "(real ndarray \<Rightarrow> real option) \<Rightarrow> real ndarray \<Rightarrow> real ndarray \<Rightarrow> real ndarray \<Rightarrow>
   real ndarray option" where
  "Volume hvol Xg Yg Zg =
     (case shape Xg of
        [Ngk, Ngj, Ngi] \<Rightarrow>
          (let Nk = int Ngk - 2 * int NumG - 1;
               Nj = int Ngj - 2 * int NumG - 1;
               Ni = int Ngi - 2 * int NumG - 1;
               g = [Sl (int NumG) (- int NumG), Sl (int NumG) (- int NumG),
                    Sl (int NumG) (- int NumG)]
           in do {
             X \<leftarrow> getitem Xg g;
             Y \<leftarrow> getitem Yg g;
             Z \<leftarrow> getitem Zg g;
             dV \<leftarrow> np_zeros [Nk, Nj, Ni];
             st \<leftarrow> for_each (py_range Nj) (\<lambda>j.
                     for_each (py_range Ni) (\<lambda>i. Volume_cell hvol X Y Z 0 j i))
                     (zeros [8, 3], dV);
             Some (snd st)
           })
      | _ \<Rightarrow> None)"

subsection \<open>Cell-centred gas variables\<close>

text \<open>
  \<^verbatim>\<open>downGas(X,Y,Z,G,Xd,Yd,Zd)\<close>.  The body of the innermost loop, for the output cell
  \<open>(s,v,k,j,i)\<close>; numpy's float division does not raise, and \<open>x / 0 = 0\<close> here.
\<close>

definition downGas_cell ::
  "real ndarray \<Rightarrow> real ndarray \<Rightarrow> real ndarray \<Rightarrow> nat \<Rightarrow> nat \<Rightarrow> nat \<Rightarrow> nat \<Rightarrow> nat \<Rightarrow>
   real ndarray \<Rightarrow> real ndarray option" where
  "downGas_cell dV dVd G s v k j i Gd =
     do {
       dVijk \<leftarrow> getitem dV [Sln (2*k) (2*k + 2), Sln (2*j) (2*j + 2), Sln (2*i) (2*i + 2)];
       dQijk \<leftarrow> getitem G [Ixn s, Ixn v,
                  Sln (2*k) (2*k + 2), Sln (2*j) (2*j + 2), Sln (2*i) (2*i + 2)];
       prod \<leftarrow> np_binop (*) dVijk dQijk;
       vd \<leftarrow> elem dVd [k, j, i];
       setitem Gd [Ixn s, Ixn v, Ixn k, Ixn j, Ixn i] (scalar (np_sum prod / vd))
     }"

definition downGas ::
  "(real ndarray \<Rightarrow> real option) \<Rightarrow> real ndarray \<Rightarrow> real ndarray \<Rightarrow> real ndarray \<Rightarrow> real ndarray \<Rightarrow>
   real ndarray \<Rightarrow> real ndarray \<Rightarrow> real ndarray \<Rightarrow> real ndarray option" where
  "downGas hvol X Y Z G Xd Yd Zd =
     (case shape G of
        [Ns, Nv, Nk, Nj, Ni] \<Rightarrow>
          do {
            dV \<leftarrow> Volume hvol X Y Z;
            dVd \<leftarrow> Volume hvol Xd Yd Zd;
            for_each [0..<Ns] (\<lambda>s.
              for_each [0..<Nv] (\<lambda>v.
                for_each [0..<Nk div 2] (\<lambda>k.
                  for_each [0..<Nj div 2] (\<lambda>j.
                    for_each [0..<Ni div 2] (\<lambda>i. downGas_cell dV dVd G s v k j i)))))
              (zeros [Ns, Nv, Nk div 2, Nj div 2, Ni div 2])
          }
      | _ \<Rightarrow> None)"

text \<open>\<^verbatim>\<open>upGas(X,Y,Z,G,Xu,Yu,Zu)\<close>, with the body of its innermost loop.\<close>

definition upGas_cell ::
  "real ndarray \<Rightarrow> real ndarray \<Rightarrow> real ndarray \<Rightarrow> nat \<Rightarrow> nat \<Rightarrow> nat \<Rightarrow> nat \<Rightarrow> nat \<Rightarrow>
   real ndarray \<Rightarrow> real ndarray option" where
  "upGas_cell dV dVu G s v k j i Gu =
     do {
       g \<leftarrow> elem G [s, v, k, j, i];
       dv \<leftarrow> elem dV [k, j, i];
       let QdV = g * dv;
       dVijk \<leftarrow> getitem dVu [Sln (2*k) (2*k + 2), Sln (2*j) (2*j + 2), Sln (2*i) (2*i + 2)];
       let vScl = np_sum dVijk;
       w \<leftarrow> np_binop (/) dVijk (scalar vScl);
       QdVu \<leftarrow> np_binop (*) (scalar QdV) w;
       q \<leftarrow> np_binop (/) QdVu dVijk;
       setitem Gu [Ixn s, Ixn v,
         Sln (2*k) (2*k + 2), Sln (2*j) (2*j + 2), Sln (2*i) (2*i + 2)] q
     }"

definition upGas ::
  "(real ndarray \<Rightarrow> real option) \<Rightarrow> real ndarray \<Rightarrow> real ndarray \<Rightarrow> real ndarray \<Rightarrow> real ndarray \<Rightarrow>
   real ndarray \<Rightarrow> real ndarray \<Rightarrow> real ndarray \<Rightarrow> real ndarray option" where
  "upGas hvol X Y Z G Xu Yu Zu =
     (case shape G of
        [Ns, Nv, Nk, Nj, Ni] \<Rightarrow>
          do {
            dV \<leftarrow> Volume hvol X Y Z;
            dVu \<leftarrow> Volume hvol Xu Yu Zu;
            for_each [0..<Ns] (\<lambda>s.
              for_each [0..<Nv] (\<lambda>v.
                for_each [0..<Nk] (\<lambda>k.
                  for_each [0..<Nj] (\<lambda>j.
                    for_each [0..<Ni] (\<lambda>i. upGas_cell dV dVu G s v k j i)))))
              (zeros [Ns, Nv, 2 * Nk, 2 * Nj, 2 * Ni])
          }
      | _ \<Rightarrow> None)"

subsection \<open>Auxiliary fields (gBAvg, gBHist)\<close>

text \<open>
  \<^verbatim>\<open>downVolt(G)\<close> unpacks \<^verbatim>\<open>G.shape\<close> into four names, which raises on an array of any
  other rank, and takes the mean of each 2 by 2 block in \<open>k\<close> and \<open>j\<close>.
\<close>

definition downVolt_cell ::
  "real ndarray \<Rightarrow> nat \<Rightarrow> nat \<Rightarrow> nat \<Rightarrow> nat \<Rightarrow> real ndarray \<Rightarrow> real ndarray option" where
  "downVolt_cell G d i k j Gu =
     (let j0 = 2 * j; k0 = 2 * k in
      do {
        blk \<leftarrow> getitem G [Ixn d, Sln k0 (k0 + 2), Sln j0 (j0 + 2), Ixn i];
        setitem Gu [Ixn d, Ixn k, Ixn j, Ixn i] (scalar (np_mean blk))
      })"

definition downVolt :: "real ndarray \<Rightarrow> real ndarray option" where
  "downVolt G =
     (case shape G of
        [Nd, Nk, Nj, Ni] \<Rightarrow>
          for_each [0..<Nd] (\<lambda>d.
            for_each [0..<Ni] (\<lambda>i.
              for_each [0..<Nk div 2] (\<lambda>k.
                for_each [0..<Nj div 2] (\<lambda>j. downVolt_cell G d i k j))))
            (zeros [Nd, Nk div 2, Nj div 2, Ni])
      | _ \<Rightarrow> None)"

text \<open>
  \<^verbatim>\<open>upVolt(G)\<close> first defines an inner function of the same name that is never called,
  then runs the four-axis code inside \<^verbatim>\<open>try\<close>; any exception there (the first one
  possible is the failed unpacking of the shape) leads to the \<^verbatim>\<open>except\<close> branch, which
  unpacks five axes and replicates over the trailing axis \<open>h\<close>.
\<close>

definition upVolt4_cell ::
  "real ndarray \<Rightarrow> nat \<Rightarrow> nat \<Rightarrow> nat \<Rightarrow> nat \<Rightarrow> real ndarray \<Rightarrow> real ndarray option" where
  "upVolt4_cell G d i k j Gu =
     do {
       Gjk \<leftarrow> elem G [d, k, j, i];
       let j0 = 2 * j; k0 = 2 * k in
       setitem Gu [Ixn d, Sln k0 (k0 + 2), Sln j0 (j0 + 2), Ixn i] (scalar Gjk)
     }"

definition upVolt4 :: "real ndarray \<Rightarrow> real ndarray option" where
  "upVolt4 G =
     (case shape G of
        [Nd, Nk, Nj, Ni] \<Rightarrow>
          for_each [0..<Nd] (\<lambda>d.
            for_each [0..<Ni] (\<lambda>i.
              for_each [0..<Nk] (\<lambda>k.
                for_each [0..<Nj] (\<lambda>j. upVolt4_cell G d i k j))))
            (zeros [Nd, 2 * Nk, 2 * Nj, Ni])
      | _ \<Rightarrow> None)"

definition upVolt5_cell ::
  "real ndarray \<Rightarrow> nat \<Rightarrow> nat \<Rightarrow> nat \<Rightarrow> nat \<Rightarrow> nat \<Rightarrow> real ndarray \<Rightarrow> real ndarray option" where
  "upVolt5_cell G h d i k j Gu =
     do {
       Gjk \<leftarrow> elem G [d, k, j, i, h];
       let j0 = 2 * j; k0 = 2 * k in
       setitem Gu [Ixn d, Sln k0 (k0 + 2), Sln j0 (j0 + 2), Ixn i, Ixn h] (scalar Gjk)
     }"

definition upVolt5 :: "real ndarray \<Rightarrow> real ndarray option" where
  "upVolt5 G =
     (case shape G of
        [Nd, Nk, Nj, Ni, Nh] \<Rightarrow>
          for_each [0..<Nh] (\<lambda>h.
            for_each [0..<Nd] (\<lambda>d.
              for_each [0..<Ni] (\<lambda>i.
                for_each [0..<Nk] (\<lambda>k.
                  for_each [0..<Nj] (\<lambda>j. upVolt5_cell G h d i k j)))))
            (zeros [Nd, 2 * Nk, 2 * Nj, Ni, Nh])
      | _ \<Rightarrow> None)"

definition upVolt :: "real ndarray \<Rightarrow> real ndarray option" where
  "upVolt G = (case upVolt4 G of Some Gu \<Rightarrow> Some Gu | None \<Rightarrow> upVolt5 G)"

subsection \<open>Face-centred magnetic fluxes\<close>

text \<open>
  \<^verbatim>\<open>downFlux(X,Y,Z,M,Xu,Yu,Zu)\<close>; the grids are not used.  The cell counts
  \<^verbatim>\<open>Nk = Nkc-1\<close> are Python integers (\<open>-1\<close> for an empty axis), and \<^verbatim>\<open>//\<close> rounds
  down, as \<open>div\<close> on \<open>int\<close> does.
\<close>

definition downFlux_cell ::
  "real ndarray \<Rightarrow> nat \<Rightarrow> nat \<Rightarrow> nat \<Rightarrow> real ndarray \<Rightarrow> real ndarray option" where
  "downFlux_cell M k j i Md =
     (let ip = 2 * i; jp = 2 * j; kp = 2 * k in
      do {
        w \<leftarrow> getitem M [Ixn IDIR, Sln kp (kp + 2), Sln jp (jp + 2), Ixn ip];
        Md1 \<leftarrow> setitem Md [Ixn IDIR, Ixn k, Ixn j, Ixn i] (scalar (np_sum w));
        e \<leftarrow> getitem M [Ixn IDIR, Sln kp (kp + 2), Sln jp (jp + 2), Ixn (ip + 2)];
        Md2 \<leftarrow> setitem Md1 [Ixn IDIR, Ixn k, Ixn j, Ixn (i + 1)] (scalar (np_sum e));
        s \<leftarrow> getitem M [Ixn JDIR, Sln kp (kp + 2), Ixn jp, Sln ip (ip + 2)];
        Md3 \<leftarrow> setitem Md2 [Ixn JDIR, Ixn k, Ixn j, Ixn i] (scalar (np_sum s));
        n \<leftarrow> getitem M [Ixn JDIR, Sln kp (kp + 2), Ixn (jp + 2), Sln ip (ip + 2)];
        Md4 \<leftarrow> setitem Md3 [Ixn JDIR, Ixn k, Ixn (j + 1), Ixn i] (scalar (np_sum n));
        b \<leftarrow> getitem M [Ixn KDIR, Ixn kp, Sln jp (jp + 2), Sln ip (ip + 2)];
        Md5 \<leftarrow> setitem Md4 [Ixn KDIR, Ixn k, Ixn j, Ixn i] (scalar (np_sum b));
        t \<leftarrow> getitem M [Ixn KDIR, Ixn (kp + 2), Sln jp (jp + 2), Sln ip (ip + 2)];
        setitem Md5 [Ixn KDIR, Ixn (k + 1), Ixn j, Ixn i] (scalar (np_sum t))
      })"

definition downFlux ::
  "real ndarray \<Rightarrow> real ndarray \<Rightarrow> real ndarray \<Rightarrow> real ndarray \<Rightarrow>
   real ndarray \<Rightarrow> real ndarray \<Rightarrow> real ndarray \<Rightarrow> real ndarray option" where
  "downFlux X Y Z M Xu Yu Zu =
     (case shape M of
        [Nd, Nkc, Njc, Nic] \<Rightarrow>
          (let Nk = int Nkc - 1; Nj = int Njc - 1; Ni = int Nic - 1 in
           do {
             Md \<leftarrow> np_zeros [int Nd, Nk div 2 + 1, Nj div 2 + 1, Ni div 2 + 1];
             for_each (py_range (Nk div 2)) (\<lambda>k.
               for_each (py_range (Nj div 2)) (\<lambda>j.
                 for_each (py_range (Ni div 2)) (\<lambda>i. downFlux_cell M k j i))) Md
           })
      | _ \<Rightarrow> None)"

text \<open>\<^verbatim>\<open>upFlux(X,Y,Z,M,Xu,Yu,Zu)\<close>; the grids are not used.\<close>

definition upFlux_cell ::
  "real ndarray \<Rightarrow> nat \<Rightarrow> nat \<Rightarrow> nat \<Rightarrow> real ndarray \<Rightarrow> real ndarray option" where
  "upFlux_cell M k j i Mu =
     (let ip = 2 * i; jp = 2 * j; kp = 2 * k in
      do {
        mw \<leftarrow> elem M [IDIR, k, j, i];
        Mu1 \<leftarrow> setitem Mu [Ixn IDIR, Sln kp (kp + 2), Sln jp (jp + 2), Ixn ip]
                 (scalar (0.25 * mw));
        me \<leftarrow> elem M [IDIR, k, j, i + 1];
        Mu2 \<leftarrow> setitem Mu1 [Ixn IDIR, Sln kp (kp + 2), Sln jp (jp + 2), Ixn (ip + 2)]
                 (scalar (0.25 * me));
        ms \<leftarrow> elem M [JDIR, k, j, i];
        Mu3 \<leftarrow> setitem Mu2 [Ixn JDIR, Sln kp (kp + 2), Ixn jp, Sln ip (ip + 2)]
                 (scalar (0.25 * ms));
        mn \<leftarrow> elem M [JDIR, k, j + 1, i];
        Mu4 \<leftarrow> setitem Mu3 [Ixn JDIR, Sln kp (kp + 2), Ixn (jp + 2), Sln ip (ip + 2)]
                 (scalar (0.25 * mn));
        mb \<leftarrow> elem M [KDIR, k, j, i];
        Mu5 \<leftarrow> setitem Mu4 [Ixn KDIR, Ixn kp, Sln jp (jp + 2), Sln ip (ip + 2)]
                 (scalar (0.25 * mb));
        mt \<leftarrow> elem M [KDIR, k + 1, j, i];
        Mu6 \<leftarrow> setitem Mu5 [Ixn KDIR, Ixn (kp + 2), Sln jp (jp + 2), Sln ip (ip + 2)]
                 (scalar (0.25 * mt));
        iw \<leftarrow> getitem Mu6 [Ixn IDIR, Sln kp (kp + 2), Sln jp (jp + 2), Ixn ip];
        ie \<leftarrow> getitem Mu6 [Ixn IDIR, Sln kp (kp + 2), Sln jp (jp + 2), Ixn (ip + 2)];
        isum \<leftarrow> np_binop (+) iw ie;
        ihalf \<leftarrow> np_binop (*) (scalar 0.5) isum;
        Mu7 \<leftarrow> setitem Mu6 [Ixn IDIR, Sln kp (kp + 2), Sln jp (jp + 2), Ixn (ip + 1)] ihalf;
        js \<leftarrow> getitem Mu7 [Ixn JDIR, Sln kp (kp + 2), Ixn jp, Sln ip (ip + 2)];
        jn \<leftarrow> getitem Mu7 [Ixn JDIR, Sln kp (kp + 2), Ixn (jp + 2), Sln ip (ip + 2)];
        jsum \<leftarrow> np_binop (+) js jn;
        jhalf \<leftarrow> np_binop (*) (scalar 0.5) jsum;
        Mu8 \<leftarrow> setitem Mu7 [Ixn JDIR, Sln kp (kp + 2), Ixn (jp + 1), Sln ip (ip + 2)] jhalf;
        kb \<leftarrow> getitem Mu8 [Ixn KDIR, Ixn kp, Sln jp (jp + 2), Sln ip (ip + 2)];
        kt \<leftarrow> getitem Mu8 [Ixn KDIR, Ixn (kp + 2), Sln jp (jp + 2), Sln ip (ip + 2)];
        ksum \<leftarrow> np_binop (+) kb kt;
        khalf \<leftarrow> np_binop (*) (scalar 0.5) ksum;
        setitem Mu8 [Ixn KDIR, Ixn (kp + 1), Sln jp (jp + 2), Sln ip (ip + 2)] khalf
      })"

definition upFlux ::
  "real ndarray \<Rightarrow> real ndarray \<Rightarrow> real ndarray \<Rightarrow> real ndarray \<Rightarrow>
   real ndarray \<Rightarrow> real ndarray \<Rightarrow> real ndarray \<Rightarrow> real ndarray option" where
  "upFlux X Y Z M Xu Yu Zu =
     (case shape M of
        [Nd, Nkc, Njc, Nic] \<Rightarrow>
          (let Nk = int Nkc - 1; Nj = int Njc - 1; Ni = int Nic - 1 in
           do {
             Mu \<leftarrow> np_zeros [int Nd, 2 * Nk + 1, 2 * Nj + 1, 2 * Ni + 1];
             for_each (py_range Nk) (\<lambda>k.
               for_each (py_range Nj) (\<lambda>j.
                 for_each (py_range Ni) (\<lambda>i. upFlux_cell M k j i))) Mu
           })
      | _ \<Rightarrow> None)"

text \<open>
  \<^verbatim>\<open>MaxDiv(M)\<close> returns the array of cell divergences.  Before returning it takes
  \<^verbatim>\<open>np.abs(Div).max()\<close>, which raises on an array without elements.
\<close>

definition MaxDiv_cell ::
  "real ndarray \<Rightarrow> nat \<Rightarrow> nat \<Rightarrow> nat \<Rightarrow> real ndarray \<Rightarrow> real ndarray option" where
  "MaxDiv_cell M k j i Div =
     do {
       ie \<leftarrow> elem M [IDIR, k, j, i + 1];
       iw \<leftarrow> elem M [IDIR, k, j, i];
       jn \<leftarrow> elem M [JDIR, k, j + 1, i];
       js \<leftarrow> elem M [JDIR, k, j, i];
       kt \<leftarrow> elem M [KDIR, k + 1, j, i];
       kb \<leftarrow> elem M [KDIR, k, j, i];
       setitem Div [Ixn k, Ixn j, Ixn i] (scalar (ie - iw + jn - js + kt - kb))
     }"

definition MaxDiv :: "real ndarray \<Rightarrow> real ndarray option" where
  "MaxDiv M =
     (case shape M of
        [Nd, Nkc, Njc, Nic] \<Rightarrow>
          (let Nk = int Nkc - 1; Nj = int Njc - 1; Ni = int Nic - 1 in
           do {
             Div0 \<leftarrow> np_zeros [Nk, Nj, Ni];
             Div \<leftarrow> for_each (py_range Nk) (\<lambda>k.
                      for_each (py_range Nj) (\<lambda>j.
                        for_each (py_range Ni) (\<lambda>i. MaxDiv_cell M k j i))) Div0;
             if prod_list (shape Div) = 0 then None else Some Div
           })
      | _ \<Rightarrow> None)"

section \<open>Reading tiled output: \<^verbatim>\<open>kaipy/gamera/gampp.py\<close>\<close>

text \<open>
  The module \<^verbatim>\<open>kaipy.kaiH5\<close> (imported as \<^verbatim>\<open>kh5\<close>) is not among the sources.  The two
  functions of it that the reader calls are parameters: \<^verbatim>\<open>genName\<close>, the name of the file
  of a rank, and \<^verbatim>\<open>PullVar\<close>, the dataset of a variable at a step (\<open>None\<close> when the file
  or the dataset cannot be read).
\<close>

record kaiH5 =
  genName :: "string \<Rightarrow> nat \<Rightarrow> nat \<Rightarrow> nat \<Rightarrow> nat \<Rightarrow> nat \<Rightarrow> nat \<Rightarrow> string"
  PullVar :: "string \<Rightarrow> string \<Rightarrow> int option \<Rightarrow> real ndarray option"

text \<open>
  Modelled from the spec: \<^verbatim>\<open>kh5.PullVarLoc\<close> is missing from the sources; by the
  specification each worker opens and reads one rank file and returns the pair of the
  data and the rank tuple.
\<close>

definition PullVarLoc ::
  "kaiH5 \<Rightarrow> string \<Rightarrow> string \<Rightarrow> int option \<Rightarrow> nat \<times> nat \<times> nat \<Rightarrow>
   (real ndarray \<times> nat \<times> nat \<times> nat) option" where
  "PullVarLoc h5 fIn vID sID loc = map_option (\<lambda>d. (d, loc)) (PullVar h5 fIn vID sID)"

text \<open>The fields of a \<^verbatim>\<open>GameraPipe\<close> object that the reading methods use.\<close>

record GameraPipe =
  self_fdir :: string
  self_ftag :: string
  self_isMPI :: bool
  self_doParallel :: bool
  self_is2D :: bool
  self_Ni :: nat
  self_Nj :: nat
  self_Nk :: nat
  self_dNi :: nat
  self_dNj :: nat
  self_dNk :: nat
  self_Ri :: nat
  self_Rj :: nat
  self_Rk :: nat
  self_Nr :: nat
  self_nWorkers :: nat

text \<open>\<^verbatim>\<open>itertools.product(range(a), range(b), range(c))\<close>\<close>

definition product3 :: "nat \<Rightarrow> nat \<Rightarrow> nat \<Rightarrow> (nat \<times> nat \<times> nat) list" where
  "product3 a b c =
     concat (map (\<lambda>i. concat (map (\<lambda>j. map (\<lambda>k. (i, j, k)) [0..<c]) [0..<b])) [0..<a])"

text \<open>
  The loop over \<^verbatim>\<open>as_completed(futures)\<close> takes the results in the order in which the
  workers finish.  That order depends on the pool and on timing; it is the argument
  \<open>order\<close>, the positions of the submitted futures in order of completion (each position
  once).  \<^verbatim>\<open>future.result()\<close> raises what the worker raised.
\<close>

definition as_completed :: "nat list \<Rightarrow> 'a list \<Rightarrow> 'a list" where
  "as_completed order futures = map (\<lambda>n. futures ! n) order"

definition place_tile ::
  "GameraPipe \<Rightarrow> real ndarray \<Rightarrow> nat \<times> nat \<times> nat \<Rightarrow> real ndarray \<Rightarrow> real ndarray option" where
  "place_tile self dataset loc V =
     (case loc of (i, j, k) \<Rightarrow>
        (let iS = i * self_dNi self; jS = j * self_dNj self; kS = k * self_dNk self;
             iE = iS + self_dNi self; jE = jS + self_dNj self; kE = kS + self_dNk self
         in if self_is2D self
            then setitem V [Sln iS iE, Sln jS jE] dataset
            else setitem V [Sln iS iE, Sln jS jE, Sln kS kE] dataset))"

definition GetVarParallel ::
  "kaiH5 \<Rightarrow> nat list \<Rightarrow> GameraPipe \<Rightarrow> string \<Rightarrow> int option \<Rightarrow> real option \<Rightarrow> bool \<Rightarrow>
   real ndarray option" where
  "GetVarParallel h5 order self vID sID vScl doVerb =
     (let V = (if self_is2D self then zeros [self_Ni self, self_Nj self]
               else zeros [self_Ni self, self_Nj self, self_Nk self]);
          files = map (\<lambda>(i, j, k).
                    (self_fdir self @ ''/'' @
                       genName h5 (self_ftag self) i j k (self_Ri self) (self_Rj self) (self_Rk self),
                     (i, j, k)))
                  (product3 (self_Ri self) (self_Rj self) (self_Rk self));
          futures = map (\<lambda>(fIn, loc). PullVarLoc h5 fIn vID sID loc) files
      in do {
        datasets \<leftarrow> those (as_completed order futures);
        V' \<leftarrow> for_each datasets (\<lambda>(dataset, loc). place_tile self dataset loc) V;
        (case vScl of None \<Rightarrow> Some V' | Some c \<Rightarrow> np_binop (*) (scalar c) V')
      })"

text \<open>
  \<^verbatim>\<open>GetVar\<close>.  In the sequential branch the tiles are read and placed one after the
  other, and \<^verbatim>\<open>V\<close> is returned as assembled: \<^verbatim>\<open>vScl\<close> does not occur in that branch.
\<close>

definition GetVar ::
  "kaiH5 \<Rightarrow> nat list \<Rightarrow> GameraPipe \<Rightarrow> string \<Rightarrow> int option \<Rightarrow> real option \<Rightarrow> bool \<Rightarrow>
   real ndarray option" where
  "GetVar h5 order self vID sID vScl doVerb =
     (let V = (if self_is2D self then zeros [self_Ni self, self_Nj self]
               else zeros [self_Ni self, self_Nj self, self_Nk self])
      in if self_isMPI self \<and> self_doParallel self
         then GetVarParallel h5 order self vID sID vScl doVerb
         else for_each (product3 (self_Ri self) (self_Rj self) (self_Rk self))
                (\<lambda>(i, j, k) V.
                   (let fIn = (if self_isMPI self
                               then self_fdir self @ ''/'' @
                                    genName h5 (self_ftag self) i j k
                                      (self_Ri self) (self_Rj self) (self_Rk self)
                               else self_fdir self @ ''/'' @ self_ftag self @ ''.h5'')
                    in do {
                      dataset \<leftarrow> PullVar h5 fIn vID sID;
                      place_tile self dataset (i, j, k) V
                    }))
                V)"

text \<open>
  Python strings are sequences of Unicode code points.  The direction argument of
  \<^verbatim>\<open>GetSlice\<close> is the one string whose characters the reader inspects; it is a list of
  code points, and \<open>ustr\<close> gives the code points of an ASCII literal.  The names of files
  and variables are only concatenated and printed.  \<^verbatim>\<open>str.upper()\<close> is a function of
  the Unicode character database, which is not part of the sources: it is the parameter
  \<open>str_upper\<close> of \<^verbatim>\<open>GetSlice\<close>.  \<open>str_int\<close> is \<^verbatim>\<open>"%d" % n\<close>.
\<close>

type_synonym ustring = "nat list"

definition ustr :: "string \<Rightarrow> ustring" where
  "ustr s = map of_char s"

fun str_nat :: "nat \<Rightarrow> string" where
  "str_nat n = (if n < 10 then [''0123456789'' ! n]
                else str_nat (n div 10) @ [''0123456789'' ! (n mod 10)])"

definition str_int :: "int \<Rightarrow> string" where
  "str_int n = (if n < 0 then ''-'' @ str_nat (nat (- n)) else str_nat (nat n))"

text \<open>
  \<^verbatim>\<open>GetSlice\<close> returns the lines it printed together with the slice; the lines printed
  before an exception stay printed.
\<close>

definition GetSlice ::
  "(ustring \<Rightarrow> ustring) \<Rightarrow> kaiH5 \<Rightarrow> nat list \<Rightarrow> GameraPipe \<Rightarrow> string \<Rightarrow> int option \<Rightarrow> ustring \<Rightarrow>
   int \<Rightarrow> real option \<Rightarrow> bool \<Rightarrow> string list \<times> real ndarray option" where
  "GetSlice str_upper h5 order self vID sID ijkdir n vScl doVerb =
     (let sDirs = [ustr ''IDIR'', ustr ''JDIR'', ustr ''KDIR''];
          ijkdir1 = str_upper ijkdir;
          invalid = (ijkdir1 \<notin> set sDirs);
          out1 = (if invalid then [''Invalid slice direction, defaulting to I''] else []);
          ijkdir2 = (if invalid then ustr ''IDIR'' else ijkdir1);
          cStr = (case sID of
                    None \<Rightarrow> ''Reading '' @ self_ftag self @ ''/'' @ vID
                  | Some s \<Rightarrow> ''Reading '' @ self_ftag self @ ''/Step#'' @ str_int s @ ''/'' @ vID)
      in case GetVar h5 order self vID sID vScl False of
           None \<Rightarrow> (out1, None)
         | Some V \<Rightarrow>
            (let np = n - 1;
                 Vs = (if ijkdir2 = ustr ''IDIR'' then getitem V [Ix np, All, All]
                       else if ijkdir2 = ustr ''JDIR'' then getitem V [All, Ix np, All]
                       else if ijkdir2 = ustr ''KDIR'' then getitem V [All, All, Ix np]
                       else None);
                 sStr = (if ijkdir2 = ustr ''IDIR'' then ''('' @ str_int n @ '',:,:)''
                         else if ijkdir2 = ustr ''JDIR'' then ''(:,'' @ str_int n @ '',:)''
                         else ''(:,:,'' @ str_int n @ '')'')
             in case Vs of
                  None \<Rightarrow> (out1, None)
                | Some Vs' \<Rightarrow> (if doVerb then out1 @ [cStr @ sStr] else out1, Some Vs')))"

section \<open>Vocabulary of the statements\<close>

text \<open>
  \<open>patched sh R T A A'\<close>: the array \<open>A'\<close> has shape \<open>sh\<close>, holds \<open>T x\<close> at every index
  \<open>x\<close> of the region \<open>R\<close>, and agrees with \<open>A\<close> elsewhere.  This is what one pass of a
  loop body does to the output array.
\<close>

definition patched ::
  "nat list \<Rightarrow> (nat list \<Rightarrow> bool) \<Rightarrow> (nat list \<Rightarrow> 'a) \<Rightarrow> 'a ndarray \<Rightarrow> 'a ndarray \<Rightarrow> bool" where
  "patched sh R T A A' = (shape A' = sh \<and> (\<forall>x. data A' x = (if R x then T x else data A x)))"

text \<open>The sum of a three-dimensional field over the 2 by 2 by 2 block of fine cells of
  the coarse cell \<open>(k,j,i)\<close>, in the order of \<^verbatim>\<open>.sum()\<close>.\<close>

definition blk_sum :: "(nat list \<Rightarrow> real) \<Rightarrow> nat \<Rightarrow> nat \<Rightarrow> nat \<Rightarrow> real" where
  "blk_sum f k j i =
     f [2*k, 2*j, 2*i] + f [2*k, 2*j, 2*i + 1] +
     f [2*k, 2*j + 1, 2*i] + f [2*k, 2*j + 1, 2*i + 1] +
     f [2*k + 1, 2*j, 2*i] + f [2*k + 1, 2*j, 2*i + 1] +
     f [2*k + 1, 2*j + 1, 2*i] + f [2*k + 1, 2*j + 1, 2*i + 1]"

text \<open>The value that \<^verbatim>\<open>upGas\<close> writes at a fine index, and the fine indices written by
  the pass for the coarse cell \<open>(s,v,k,j,i)\<close>.\<close>

definition upGas_val :: "real ndarray \<Rightarrow> real ndarray \<Rightarrow> real ndarray \<Rightarrow> nat list \<Rightarrow> real" where
  "upGas_val dV dVu G x =
     (case x of
        [s, v, kf, jf, if'] \<Rightarrow>
           data G [s, v, kf div 2, jf div 2, if' div 2] * data dV [kf div 2, jf div 2, if' div 2] *
             (data dVu [kf, jf, if'] / blk_sum (data dVu) (kf div 2) (jf div 2) (if' div 2))
             / data dVu [kf, jf, if']
      | _ \<Rightarrow> 0)"

definition in_blk :: "nat \<Rightarrow> nat \<Rightarrow> nat \<Rightarrow> nat \<Rightarrow> nat \<Rightarrow> nat list \<Rightarrow> bool" where
  "in_blk s v k j i x =
     (case x of [x1, x2, x3, x4, x5] \<Rightarrow>
         x1 = s \<and> x2 = v \<and> x3 div 2 = k \<and> x4 div 2 = j \<and> x5 div 2 = i
      | _ \<Rightarrow> False)"

text \<open>The value that \<^verbatim>\<open>downGas\<close> writes at a coarse index.\<close>

definition downGas_val :: "real ndarray \<Rightarrow> real ndarray \<Rightarrow> real ndarray \<Rightarrow> nat list \<Rightarrow> real" where
  "downGas_val dV dVd G x =
     (case x of
        [s, v, k, j, i] \<Rightarrow>
           blk_sum (\<lambda>c. data dV c * data G (s # v # c)) k j i / data dVd [k, j, i]
      | _ \<Rightarrow> 0)"

text \<open>One element of the result of an operation that may fail.\<close>

definition elem_of :: "nat list \<Rightarrow> 'a ndarray option \<Rightarrow> 'a option" where
  "elem_of idx r = Option.bind r (\<lambda>A. elem A idx)"

text \<open>What \<^verbatim>\<open>upVolt\<close> and \<^verbatim>\<open>downVolt\<close> write, and where one pass of \<^verbatim>\<open>upVolt\<close> writes.\<close>

definition upVolt4_val :: "real ndarray \<Rightarrow> nat list \<Rightarrow> real" where
  "upVolt4_val G x =
     (case x of [d, kf, jf, i] \<Rightarrow> data G [d, kf div 2, jf div 2, i] | _ \<Rightarrow> 0)"

definition in_vblk4 :: "nat \<Rightarrow> nat \<Rightarrow> nat \<Rightarrow> nat \<Rightarrow> nat list \<Rightarrow> bool" where
  "in_vblk4 d i k j x =
     (case x of [x1, x2, x3, x4] \<Rightarrow> x1 = d \<and> x2 div 2 = k \<and> x3 div 2 = j \<and> x4 = i
      | _ \<Rightarrow> False)"

definition upVolt5_val :: "real ndarray \<Rightarrow> nat list \<Rightarrow> real" where
  "upVolt5_val G x =
     (case x of [d, kf, jf, i, h] \<Rightarrow> data G [d, kf div 2, jf div 2, i, h] | _ \<Rightarrow> 0)"

definition in_vblk5 :: "nat \<Rightarrow> nat \<Rightarrow> nat \<Rightarrow> nat \<Rightarrow> nat \<Rightarrow> nat list \<Rightarrow> bool" where
  "in_vblk5 h d i k j x =
     (case x of [x1, x2, x3, x4, x5] \<Rightarrow>
         x1 = d \<and> x2 div 2 = k \<and> x3 div 2 = j \<and> x4 = i \<and> x5 = h
      | _ \<Rightarrow> False)"

definition downVolt_val :: "real ndarray \<Rightarrow> nat list \<Rightarrow> real" where
  "downVolt_val G x =
     (case x of
        [d, k, j, i] \<Rightarrow>
          (data G [d, 2*k, 2*j, i] + data G [d, 2*k, 2*j + 1, i] +
           data G [d, 2*k + 1, 2*j, i] + data G [d, 2*k + 1, 2*j + 1, i]) / 4
      | _ \<Rightarrow> 0)"

text \<open>The divergence of a cell, as \<^verbatim>\<open>MaxDiv\<close> computes it.\<close>

definition div_val :: "real ndarray \<Rightarrow> nat list \<Rightarrow> real" where
  "div_val M x =
     (case x of
        [k, j, i] \<Rightarrow>
          data M [IDIR, k, j, i + 1] - data M [IDIR, k, j, i]
          + data M [JDIR, k, j + 1, i] - data M [JDIR, k, j, i]
          + data M [KDIR, k + 1, j, i] - data M [KDIR, k, j, i]
      | _ \<Rightarrow> 0)"

text \<open>The coarse face fluxes that \<^verbatim>\<open>downFlux\<close> writes, and the six faces written by the
  pass for the coarse cell \<open>(k,j,i)\<close>.\<close>

definition downFlux_val :: "real ndarray \<Rightarrow> nat list \<Rightarrow> real" where
  "downFlux_val M x =
     (case x of
        [d, k, j, i] \<Rightarrow>
          if d = IDIR then
            data M [IDIR, 2*k, 2*j, 2*i] + data M [IDIR, 2*k, 2*j + 1, 2*i] +
            data M [IDIR, 2*k + 1, 2*j, 2*i] + data M [IDIR, 2*k + 1, 2*j + 1, 2*i]
          else if d = JDIR then
            data M [JDIR, 2*k, 2*j, 2*i] + data M [JDIR, 2*k, 2*j, 2*i + 1] +
            data M [JDIR, 2*k + 1, 2*j, 2*i] + data M [JDIR, 2*k + 1, 2*j, 2*i + 1]
          else
            data M [KDIR, 2*k, 2*j, 2*i] + data M [KDIR, 2*k, 2*j, 2*i + 1] +
            data M [KDIR, 2*k, 2*j + 1, 2*i] + data M [KDIR, 2*k, 2*j + 1, 2*i + 1]
      | _ \<Rightarrow> 0)"

definition in_dface :: "nat \<Rightarrow> nat \<Rightarrow> nat \<Rightarrow> nat list \<Rightarrow> bool" where
  "in_dface k j i x =
     (x = [IDIR, k, j, i] \<or> x = [IDIR, k, j, i + 1] \<or> x = [JDIR, k, j, i] \<or>
      x = [JDIR, k, j + 1, i] \<or> x = [KDIR, k, j, i] \<or> x = [KDIR, k + 1, j, i])"

text \<open>The fine face fluxes that \<^verbatim>\<open>upFlux\<close> writes, and the faces written by the pass
  for the coarse cell \<open>(k,j,i)\<close>: a quarter of the coarse flux on the faces that lie in a
  coarse face, the mean of the two flanking faces on the new faces in between.\<close>

definition upFlux_val :: "real ndarray \<Rightarrow> nat list \<Rightarrow> real" where
  "upFlux_val M x =
     (case x of
        [d, kf, jf, if'] \<Rightarrow>
          (let k = kf div 2; j = jf div 2; i = if' div 2 in
           if d = IDIR then
             (if even if' then 0.25 * data M [IDIR, k, j, i]
              else 0.5 * (0.25 * data M [IDIR, k, j, i] + 0.25 * data M [IDIR, k, j, i + 1]))
           else if d = JDIR then
             (if even jf then 0.25 * data M [JDIR, k, j, i]
              else 0.5 * (0.25 * data M [JDIR, k, j, i] + 0.25 * data M [JDIR, k, j + 1, i]))
           else
             (if even kf then 0.25 * data M [KDIR, k, j, i]
              else 0.5 * (0.25 * data M [KDIR, k, j, i] + 0.25 * data M [KDIR, k + 1, j, i])))
      | _ \<Rightarrow> 0)"

definition in_uface :: "nat \<Rightarrow> nat \<Rightarrow> nat \<Rightarrow> nat list \<Rightarrow> bool" where
  "in_uface k j i x =
     (case x of
        [d, kf, jf, if'] \<Rightarrow>
          (d = IDIR \<and> kf div 2 = k \<and> jf div 2 = j \<and> 2*i \<le> if' \<and> if' \<le> 2*i + 2) \<or>
          (d = JDIR \<and> kf div 2 = k \<and> 2*j \<le> jf \<and> jf \<le> 2*j + 2 \<and> if' div 2 = i) \<or>
          (d = KDIR \<and> 2*k \<le> kf \<and> kf \<le> 2*k + 2 \<and> jf div 2 = j \<and> if' div 2 = i)
      | _ \<Rightarrow> False)"

text \<open>The 2 by 2 blocks of faces that one assignment of \<^verbatim>\<open>upFlux\<close> covers: direction \<open>d\<close>,
  one index fixed and the two others running over the fine indices of a coarse cell.\<close>

definition in_fkj :: "nat \<Rightarrow> nat \<Rightarrow> nat \<Rightarrow> nat \<Rightarrow> nat list \<Rightarrow> bool" where
  "in_fkj d k j i x =
     (case x of [x1, x2, x3, x4] \<Rightarrow> x1 = d \<and> x2 div 2 = k \<and> x3 div 2 = j \<and> x4 = i
      | _ \<Rightarrow> False)"

definition in_fki :: "nat \<Rightarrow> nat \<Rightarrow> nat \<Rightarrow> nat \<Rightarrow> nat list \<Rightarrow> bool" where
  "in_fki d k j i x =
     (case x of [x1, x2, x3, x4] \<Rightarrow> x1 = d \<and> x2 div 2 = k \<and> x3 = j \<and> x4 div 2 = i
      | _ \<Rightarrow> False)"

definition in_fji :: "nat \<Rightarrow> nat \<Rightarrow> nat \<Rightarrow> nat \<Rightarrow> nat list \<Rightarrow> bool" where
  "in_fji d k j i x =
     (case x of [x1, x2, x3, x4] \<Rightarrow> x1 = d \<and> x2 = k \<and> x3 div 2 = j \<and> x4 div 2 = i
      | _ \<Rightarrow> False)"

text \<open>
  The grid without its ghost layers, as \<^verbatim>\<open>Volume\<close> slices it, and the array of the eight
  corners of the cell \<open>(k,j,i)\<close> that \<^verbatim>\<open>Volume\<close> hands to the convex hull: row \<open>n\<close> is the
  corner \<open>(k + n div 4, j + n div 2 mod 2, i + n mod 2)\<close>, the columns are \<open>x\<close>, \<open>y\<close>, \<open>z\<close>.
\<close>

definition ghostless :: "real ndarray \<Rightarrow> real ndarray" where
  "ghostless Xg =
     the (getitem Xg [Sl (int NumG) (- int NumG), Sl (int NumG) (- int NumG),
                      Sl (int NumG) (- int NumG)])"

definition cell_pts ::
  "real ndarray \<Rightarrow> real ndarray \<Rightarrow> real ndarray \<Rightarrow> nat \<Rightarrow> nat \<Rightarrow> nat \<Rightarrow> real ndarray" where
  "cell_pts X Y Z k j i =
     \<lparr>shape = [8, 3],
      data = (\<lambda>x. case x of
                [n, c] \<Rightarrow>
                  if n < 8 \<and> c < 3
                  then data (if c = 0 then X else if c = 1 then Y else Z)
                         [k + n div 4, j + n div 2 mod 2, i + n mod 2]
                  else 0
              | _ \<Rightarrow> 0)\<rparr>"

text \<open>The volume that \<^verbatim>\<open>Volume\<close> writes at a cell: the hull volume of the cell of the
  layer \<open>k = 0\<close> in the same column.\<close>

definition Volume_val ::
  "(real ndarray \<Rightarrow> real option) \<Rightarrow> real ndarray \<Rightarrow> real ndarray \<Rightarrow> real ndarray \<Rightarrow>
   nat list \<Rightarrow> real" where
  "Volume_val hvol X Y Z x =
     (case x of [k, j, i] \<Rightarrow> the (hvol (cell_pts X Y Z 0 j i)) | _ \<Rightarrow> 0)"

section \<open>Concrete inputs\<close>

text \<open>
  Small inputs on which the statements below are evaluated.  The grids are boxes: the
  node \<open>(k,j,i)\<close> of a grid with \<open>n\<close> active cells in each direction and spacing \<open>h\<close>
  lies at \<open>x = h (i - 4)\<close>, \<open>y = h (j - 4)\<close>, \<open>z = h (k - 4)\<close>, four ghost layers on
  every side.  Every cell is then a cube of edge \<open>h\<close> with its edges along the axes.
\<close>

definition ex_X :: "nat \<Rightarrow> real \<Rightarrow> real ndarray" where
  "ex_X n h = \<lparr>shape = [n + 9, n + 9, n + 9],
              data = (\<lambda>x. case x of [k, j, i] \<Rightarrow> h * (real i - 4) | _ \<Rightarrow> 0)\<rparr>"

definition ex_Y :: "nat \<Rightarrow> real \<Rightarrow> real ndarray" where
  "ex_Y n h = \<lparr>shape = [n + 9, n + 9, n + 9],
              data = (\<lambda>x. case x of [k, j, i] \<Rightarrow> h * (real j - 4) | _ \<Rightarrow> 0)\<rparr>"

definition ex_Z :: "nat \<Rightarrow> real \<Rightarrow> real ndarray" where
  "ex_Z n h = \<lparr>shape = [n + 9, n + 9, n + 9],
              data = (\<lambda>x. case x of [k, j, i] \<Rightarrow> h * (real k - 4) | _ \<Rightarrow> 0)\<rparr>"

text \<open>
  The convex hull of eight points that are the corners of a box with edges along the
  axes is that box.  \<open>ex_hvol\<close> is the hull volume on such point sets: the product of
  the extents in \<open>x\<close>, \<open>y\<close> and \<open>z\<close>; on a flat point set it fails, as Qhull does.
\<close>

definition extent :: "real ndarray \<Rightarrow> nat \<Rightarrow> real" where
  "extent P c = Max (set (map (\<lambda>n. data P [n, c]) [0..<8]))
              - Min (set (map (\<lambda>n. data P [n, c]) [0..<8]))"

definition ex_hvol :: "real ndarray \<Rightarrow> real option" where
  "ex_hvol P =
     (let v = extent P 0 * extent P 1 * extent P 2 in if v = 0 then None else Some v)"

text \<open>A gas state with one cell.\<close>

definition ex_gas1 :: "real ndarray" where
  "ex_gas1 = \<lparr>shape = [1, 1, 1, 1, 1], data = (\<lambda>_. 3)\<rparr>"

text \<open>A gas state with 2 by 2 by 2 cells whose densities are all different.\<close>

definition ex_gas2 :: "real ndarray" where
  "ex_gas2 = \<lparr>shape = [1, 1, 2, 2, 2],
              data = (\<lambda>x. case x of [s, v, k, j, i] \<Rightarrow> real (4 * k + 2 * j + i + 1) | _ \<Rightarrow> 0)\<rparr>"

text \<open>
  A reader whose every file holds one cell with the value 1, a serial pipe over one cell,
  and the same pipe over one rank file of an MPI run, read sequentially.
\<close>

definition ex_h5 :: kaiH5 where
  "ex_h5 = \<lparr>genName = (\<lambda>tag i j k Ri Rj Rk. tag @ ''_0001_0001_0001_0000_0000_0000.gam.h5''),
            PullVar = (\<lambda>fIn vID sID. Some \<lparr>shape = [1, 1, 1], data = (\<lambda>_. 1)\<rparr>)\<rparr>"

definition ex_pipe :: GameraPipe where
  "ex_pipe = \<lparr>self_fdir = ''run'', self_ftag = ''msphere'', self_isMPI = False,
              self_doParallel = False, self_is2D = False,
              self_Ni = 1, self_Nj = 1, self_Nk = 1, self_dNi = 1, self_dNj = 1, self_dNk = 1,
              self_Ri = 1, self_Rj = 1, self_Rk = 1, self_Nr = 0, self_nWorkers = 4\<rparr>"

definition ex_pipe_mpi :: GameraPipe where
  "ex_pipe_mpi = ex_pipe\<lparr>self_isMPI := True, self_Nr := 1\<rparr>"

text \<open>
  \<^verbatim>\<open>str.upper()\<close> on the strings of the examples: it agrees with Python on every string
  of ASCII code points and of the dotless i (U+0131, code point 305), whose upper case
  is the ASCII letter I.
\<close>

definition ex_upper_cp :: "nat \<Rightarrow> nat list" where
  "ex_upper_cp c = (if 97 \<le> c \<and> c \<le> 122 then [c - 32] else if c = 305 then [73] else [c])"

definition ex_upper :: "ustring \<Rightarrow> ustring" where
  "ex_upper s = concat (map ex_upper_cp s)"

text \<open>An auxiliary field with a trailing history axis, and a plain one.\<close>

definition ex_hist :: "real ndarray" where
  "ex_hist = \<lparr>shape = [1, 2, 2, 1, 2], data = (\<lambda>x. real (sum_list x))\<rparr>"

definition ex_avg :: "real ndarray" where
  "ex_avg = \<lparr>shape = [1, 2, 2, 1], data = (\<lambda>x. real (sum_list x))\<rparr>"

text \<open>Face fluxes on one cell and on 2 by 2 by 2 cells.  The second is divergence-free:
  every cell has the flux 1 through all its I faces and no other flux.\<close>

definition ex_flux1 :: "real ndarray" where
  "ex_flux1 = \<lparr>shape = [3, 2, 2, 2], data = (\<lambda>x. real (sum_list x) + 10 * real (hd x))\<rparr>"

definition ex_flux2 :: "real ndarray" where
  "ex_flux2 = \<lparr>shape = [3, 3, 3, 3], data = (\<lambda>x. if hd x = 0 then 1 else 0)\<rparr>"

section \<open>Facts about the numpy fragment\<close>

lemma bound_int: "bound n (int b) = min b n"
  by (simp add: bound_def)

lemma index_int: "index n (int p) = (if p < n then Some p else None)"
  by (simp add: index_def)

lemma ix_ok_Ixn [simp]: "ix_ok (n # sh) (Ixn p # is) = (p < n \<and> ix_ok sh is)"
  by (simp add: Ixn_def index_int)

lemma ix_ok_Sln [simp]: "ix_ok (n # sh) (Sln lo hi # is) = ix_ok sh is"
  by (simp add: Sln_def)

lemma region_Ixn [simp]: "region (n # sh) (Ixn p # is) = region sh is"
  by (simp add: Ixn_def)

lemma region_Sln [simp]: "region (n # sh) (Sln lo hi # is) = (min hi n - min lo n) # region sh is"
  by (simp only: Sln_def region.simps bound_int)

lemma embed_Ixn [simp]: "p < n \<Longrightarrow> embed (n # sh) (Ixn p # is) r = p # embed sh is r"
  by (simp add: Ixn_def index_int)

lemma embed_Sln [simp]: "embed (n # sh) (Sln lo hi # is) (x # r) = (min lo n + x) # embed sh is r"
  by (simp only: Sln_def embed.simps bound_int)

lemma axis_Ixn [simp]: "axis n (Ixn p) x = (if x = p \<and> p < n then Some [] else None)"
  by (auto simp: Ixn_def index_int)

lemma axis_Sln [simp]:
  "axis n (Sln lo hi) x = (if min lo n \<le> x \<and> x < min hi n then Some [x - min lo n] else None)"
  by (simp only: Sln_def axis.simps bound_int)

lemma bshape_same3 [simp]: "bshape [a,b,c] [a,b,c] = Some [a,b,c]"
  by (simp add: bshape_def)

lemma bshape_Nil1 [simp]: "bshape [] sh = Some sh"
  by (simp add: bshape_def)

lemma bshape_Nil2 [simp]: "bshape sh [] = Some sh"
  by (cases "rev sh") (simp_all add: bshape_def)

lemma bidx_Nil [simp]: "bidx [] r = []"
  by (simp add: bidx_def)

lemma bidx_222 [simp]: "bidx [2,2,2] [x,y,z] = [x,y,z]"
  by (simp add: bidx_def)

lemma bdims_Nil [simp]: "bdims [] rs"
  by (simp add: bdims_def)

lemma bdims_same [simp]: "bdims sh sh"
  by (simp add: bdims_def list_all2_same)

lemma indices_222:
  "indices [2,2,2] = [[0,0,0],[0,0,1],[0,1,0],[0,1,1],[1,0,0],[1,0,1],[1,1,0],[1,1,1]]"
  by (simp add: upt_rec)

lemma bindE:
  assumes "Option.bind m f = Some y"
  obtains x where "m = Some x" "f x = Some y"
  using assms by (auto simp: bind_eq_Some_conv)

lemma len5: "length x = 5 \<Longrightarrow> \<exists>a b c d e. x = [a,b,c,d,e]"
  by (auto simp: length_Suc_conv eval_nat_numeral)

lemma len4: "length x = 4 \<Longrightarrow> \<exists>a b c d. x = [a,b,c,d]"
  by (auto simp: length_Suc_conv eval_nat_numeral)

lemma len3: "length x = 3 \<Longrightarrow> \<exists>a b c. x = [a,b,c]"
  by (auto simp: length_Suc_conv eval_nat_numeral)

subsection \<open>Reading blocks\<close>

lemma getitem_blk3:
  assumes "shape A = [n1,n2,n3]" "a + 2 \<le> n1" "b + 2 \<le> n2" "c + 2 \<le> n3"
  shows "\<exists>B. getitem A [Sln a (a+2), Sln b (b+2), Sln c (c+2)] = Some B \<and> shape B = [2,2,2] \<and>
             (\<forall>x y z. data B [x,y,z] = data A [a+x, b+y, c+z])"
  using assms by (simp add: getitem_def min_def)

lemma getitem_blk5:
  assumes "shape A = [n1,n2,n3,n4,n5]" "s < n1" "v < n2" "a + 2 \<le> n3" "b + 2 \<le> n4" "c + 2 \<le> n5"
  shows "\<exists>B. getitem A [Ixn s, Ixn v, Sln a (a+2), Sln b (b+2), Sln c (c+2)] = Some B \<and>
             shape B = [2,2,2] \<and>
             (\<forall>x y z. data B [x,y,z] = data A [s, v, a+x, b+y, c+z])"
  using assms by (simp add: getitem_def min_def)

lemma np_binop_222:
  assumes "shape A = [2,2,2]" "shape B = [2,2,2]"
  shows "\<exists>C. np_binop f A B = Some C \<and> shape C = [2,2,2] \<and>
             (\<forall>x y z. data C [x,y,z] = f (data A [x,y,z]) (data B [x,y,z]))"
  using assms by (simp add: np_binop_def)

lemma np_binop_222_scalar:
  assumes "shape A = [2,2,2]"
  shows "\<exists>C. np_binop f A (scalar c) = Some C \<and> shape C = [2,2,2] \<and>
             (\<forall>x y z. data C [x,y,z] = f (data A [x,y,z]) c)"
  using assms by (simp add: np_binop_def scalar_def)

lemma np_binop_scalar_222:
  assumes "shape A = [2,2,2]"
  shows "\<exists>C. np_binop f (scalar c) A = Some C \<and> shape C = [2,2,2] \<and>
             (\<forall>x y z. data C [x,y,z] = f c (data A [x,y,z]))"
  using assms by (simp add: np_binop_def scalar_def)

lemma np_sum_222:
  assumes "shape A = [2,2,2]"
  shows "np_sum A = data A [0,0,0] + data A [0,0,1] + data A [0,1,0] + data A [0,1,1]
     + data A [1,0,0] + data A [1,0,1] + data A [1,1,0] + data A [1,1,1]"
proof -
  have "np_sum A = sum_list (map (data A) (indices [2,2,2]))"
    using assms by (simp only: np_sum_def)
  then show ?thesis
    by (simp only: indices_222) simp
qed

subsection \<open>Assignments\<close>

lemma locate_length: "locate sh is x = Some r \<Longrightarrow> length x = length sh"
proof (induction sh "is" x arbitrary: r rule: locate.induct)
  case (1 sh xs)
  then show ?case by (auto simp: inb_def dest: list_all2_lengthD split: if_splits)
next
  case (2 n sh i "is" x xs)
  then show ?case by (auto split: option.splits)
qed simp_all

lemma locate_wrong_length: "length x \<noteq> length sh \<Longrightarrow> locate sh is x = None"
  using locate_length by fastforce

lemma setitem_shape: "setitem A is B = Some A' \<Longrightarrow> shape A' = shape A"
  by (auto simp: setitem_def split: if_splits)

lemma setitem_data:
  "setitem A is B = Some A' \<Longrightarrow>
     data A' x = (case locate (shape A) is x of None \<Rightarrow> data A x
                  | Some r \<Rightarrow> data B (bidx (shape B) r))"
  by (auto simp: setitem_def split: if_splits)

lemma setitem_scalar:
  assumes "ix_ok (shape A) is"
  shows "\<exists>A'. setitem A is (scalar c) = Some A' \<and> shape A' = shape A \<and>
           (\<forall>x. data A' x = (if locate (shape A) is x = None then data A x else c))"
proof -
  obtain A' where s: "setitem A is (scalar c) = Some A'"
    using assms by (simp add: setitem_def scalar_def)
  have "data A' x = (if locate (shape A) is x = None then data A x else c)" for x
    using setitem_data[OF s, of x] by (simp add: scalar_def split: option.splits)
  then show ?thesis
    using s setitem_shape[OF s] by blast
qed

subsection \<open>Loops\<close>

lemma for_each_patched:
  assumes "\<And>c A. c \<in> set cs \<Longrightarrow> shape A = sh \<Longrightarrow>
              \<exists>A'. body c A = Some A' \<and> patched sh (R c) T A A'"
    and "shape A = sh"
  shows "\<exists>A'. for_each cs body A = Some A' \<and> patched sh (\<lambda>x. \<exists>c \<in> set cs. R c x) T A A'"
  using assms
proof (induction cs arbitrary: A)
  case Nil
  then show ?case by (simp add: patched_def)
next
  case (Cons c cs)
  obtain A1 where b: "body c A = Some A1" and p1: "patched sh (R c) T A A1"
    using Cons.prems by fastforce
  have "shape A1 = sh" using p1 by (simp add: patched_def)
  then obtain A2 where f: "for_each cs body A1 = Some A2"
      and p2: "patched sh (\<lambda>x. \<exists>c \<in> set cs. R c x) T A1 A2"
    using Cons.IH Cons.prems(1) by (metis list.set_intros(2))
  have "patched sh (\<lambda>x. \<exists>c' \<in> set (c # cs). R c' x) T A A2"
    using p1 p2 by (auto simp: patched_def)
  then show ?case using b f by simp
qed

lemma for_each_pres:
  assumes "\<And>c s s'. body c s = Some s' \<Longrightarrow> f s' = f s"
    and "for_each cs body s = Some s'"
  shows "f s' = f s"
  using assms(2)
proof (induction cs arbitrary: s)
  case Nil
  then show ?case by simp
next
  case (Cons c cs)
  from Cons.prems obtain s1 where b: "body c s = Some s1" and f: "for_each cs body s1 = Some s'"
    by (auto split: option.splits)
  show ?case
    using Cons.IH[OF f] assms(1)[OF b] by simp
qed

lemma np_zeros3_shape:
  assumes "np_zeros [a, b, c] = Some A"
  shows "shape A = [nat a, nat b, nat c]"
  using assms by (simp add: np_zeros_def zeros_def split: if_splits) auto

subsection \<open>Nested loops\<close>

lemma for_each2_patched:
  assumes "\<And>a b A. a \<in> set as \<Longrightarrow> b \<in> set bs \<Longrightarrow> shape A = sh \<Longrightarrow>
              \<exists>A'. body a b A = Some A' \<and> patched sh (R a b) T A A'"
    and "shape (A :: 'x ndarray) = sh"
  shows "\<exists>A'. for_each as (\<lambda>a. for_each bs (\<lambda>b. body a b)) A = Some A' \<and>
           patched sh (\<lambda>x. \<exists>a \<in> set as. \<exists>b \<in> set bs. R a b x) T A A'"
proof (rule for_each_patched[OF _ assms(2)])
  fix a and A :: "'x ndarray"
  assume "a \<in> set as" "shape A = sh"
  then show "\<exists>A'. for_each bs (\<lambda>b. body a b) A = Some A' \<and>
           patched sh (\<lambda>x. \<exists>b \<in> set bs. R a b x) T A A'"
    using assms(1) by (intro for_each_patched) auto
qed

lemma for_each3_patched:
  assumes "\<And>a b c A. a \<in> set as \<Longrightarrow> b \<in> set bs \<Longrightarrow> c \<in> set cs \<Longrightarrow> shape A = sh \<Longrightarrow>
              \<exists>A'. body a b c A = Some A' \<and> patched sh (R a b c) T A A'"
    and "shape (A :: 'x ndarray) = sh"
  shows "\<exists>A'. for_each as (\<lambda>a. for_each bs (\<lambda>b. for_each cs (\<lambda>c. body a b c))) A = Some A' \<and>
           patched sh (\<lambda>x. \<exists>a \<in> set as. \<exists>b \<in> set bs. \<exists>c \<in> set cs. R a b c x) T A A'"
proof (rule for_each_patched[OF _ assms(2)])
  fix a and A :: "'x ndarray"
  assume "a \<in> set as" "shape A = sh"
  then show "\<exists>A'. for_each bs (\<lambda>b. for_each cs (\<lambda>c. body a b c)) A = Some A' \<and>
           patched sh (\<lambda>x. \<exists>b \<in> set bs. \<exists>c \<in> set cs. R a b c x) T A A'"
    using assms(1) by (intro for_each2_patched) auto
qed

lemma for_each4_patched:
  assumes "\<And>a b c d A. a \<in> set as \<Longrightarrow> b \<in> set bs \<Longrightarrow> c \<in> set cs \<Longrightarrow> d \<in> set ds \<Longrightarrow>
              shape A = sh \<Longrightarrow> \<exists>A'. body a b c d A = Some A' \<and> patched sh (R a b c d) T A A'"
    and "shape (A :: 'x ndarray) = sh"
  shows "\<exists>A'. for_each as (\<lambda>a. for_each bs (\<lambda>b. for_each cs (\<lambda>c.
                 for_each ds (\<lambda>d. body a b c d)))) A = Some A' \<and>
           patched sh (\<lambda>x. \<exists>a \<in> set as. \<exists>b \<in> set bs. \<exists>c \<in> set cs. \<exists>d \<in> set ds. R a b c d x)
             T A A'"
proof (rule for_each_patched[OF _ assms(2)])
  fix a and A :: "'x ndarray"
  assume "a \<in> set as" "shape A = sh"
  then show "\<exists>A'. for_each bs (\<lambda>b. for_each cs (\<lambda>c. for_each ds (\<lambda>d. body a b c d))) A = Some A' \<and>
           patched sh (\<lambda>x. \<exists>b \<in> set bs. \<exists>c \<in> set cs. \<exists>d \<in> set ds. R a b c d x) T A A'"
    using assms(1) by (intro for_each3_patched) auto
qed

lemma for_each5_patched:
  assumes "\<And>a b c d e A. a \<in> set as \<Longrightarrow> b \<in> set bs \<Longrightarrow> c \<in> set cs \<Longrightarrow> d \<in> set ds \<Longrightarrow>
              e \<in> set es \<Longrightarrow> shape A = sh \<Longrightarrow>
              \<exists>A'. body a b c d e A = Some A' \<and> patched sh (R a b c d e) T A A'"
    and "shape (A :: 'x ndarray) = sh"
  shows "\<exists>A'. for_each as (\<lambda>a. for_each bs (\<lambda>b. for_each cs (\<lambda>c.
                 for_each ds (\<lambda>d. for_each es (\<lambda>e. body a b c d e))))) A = Some A' \<and>
           patched sh (\<lambda>x. \<exists>a \<in> set as. \<exists>b \<in> set bs. \<exists>c \<in> set cs. \<exists>d \<in> set ds. \<exists>e \<in> set es.
                              R a b c d e x) T A A'"
proof (rule for_each_patched[OF _ assms(2)])
  fix a and A :: "'x ndarray"
  assume "a \<in> set as" "shape A = sh"
  then show "\<exists>A'. for_each bs (\<lambda>b. for_each cs (\<lambda>c. for_each ds (\<lambda>d.
                    for_each es (\<lambda>e. body a b c d e)))) A = Some A' \<and>
           patched sh (\<lambda>x. \<exists>b \<in> set bs. \<exists>c \<in> set cs. \<exists>d \<in> set ds. \<exists>e \<in> set es. R a b c d e x)
             T A A'"
    using assms(1) by (intro for_each4_patched) auto
qed

subsection \<open>Flattening, columns, and loops over a pair\<close>

lemma setitem_loc:
  assumes "ix_ok (shape A) is" "bdims (shape B) (region (shape A) is)"
  shows "\<exists>A'. setitem A is B = Some A' \<and> shape A' = shape A \<and>
           (\<forall>x. data A' x = (case locate (shape A) is x of None \<Rightarrow> data A x
                               | Some r \<Rightarrow> data B (bidx (shape B) r)))"
  using assms by (simp add: setitem_def)

lemma indices_222_nth:
  assumes "n < 8"
  shows "indices [2,2,2] ! n = [n div 4, n div 2 mod 2, n mod 2]"
proof -
  have "n = 0 \<or> n = 1 \<or> n = 2 \<or> n = 3 \<or> n = 4 \<or> n = 5 \<or> n = 6 \<or> n = 7"
    using assms by arith
  then show ?thesis
    unfolding indices_222 by (elim disjE) simp_all
qed

lemma flatten_222:
  assumes "shape B = [2,2,2]"
  shows "shape (flatten B) = [8]"
    and "n < 8 \<Longrightarrow> data (flatten B) [n] = data B [n div 4, n div 2 mod 2, n mod 2]"
proof -
  have f: "flatten B = \<lparr>shape = [length (indices [2,2,2])],
      data = (\<lambda>r. case r of [n] \<Rightarrow> data B (indices [2,2,2] ! n) | _ \<Rightarrow> data B [])\<rparr>"
    by (simp only: flatten_def assms)
  show "shape (flatten B) = [8]"
    unfolding f indices_222 by simp
  show "data (flatten B) [n] = data B [n div 4, n div 2 mod 2, n mod 2]" if "n < 8"
    unfolding f using indices_222_nth[OF that] by simp
qed

lemma locate_col:
  assumes "c < 3"
  shows "locate [8, 3] [All, Ixn c] x =
           (if \<exists>n<8. x = [n, c] then Some [hd x] else None)"
proof (cases "length x = 2")
  case False
  then show ?thesis by (auto simp: locate_wrong_length)
next
  case True
  then obtain x1 x2 where "x = [x1, x2]"
    by (auto simp: length_Suc_conv eval_nat_numeral)
  then show ?thesis using assms by (auto simp: inb_def)
qed

lemma setitem_col:
  assumes "shape P = [8, 3]" "c < 3" "shape F = [8]"
  shows "\<exists>P'. setitem P [All, Ixn c] F = Some P' \<and> shape P' = [8, 3] \<and>
           (\<forall>x. data P' x = (if \<exists>n<8. x = [n, c] then data F [hd x] else data P x))"
proof -
  have ok: "ix_ok (shape P) [All, Ixn c]"
    using assms by simp
  have bd: "bdims (shape F) (region (shape P) [All, Ixn c])"
    using assms by simp
  obtain P' where S: "setitem P [All, Ixn c] F = Some P'" "shape P' = shape P"
    "\<And>x. data P' x = (case locate (shape P) [All, Ixn c] x of None \<Rightarrow> data P x
                               | Some r \<Rightarrow> data F (bidx (shape F) r))"
    using setitem_loc[OF ok bd] by blast
  have "data P' x = (if \<exists>n<8. x = [n, c] then data F [hd x] else data P x)" for x
    unfolding S(3) assms(1,3) locate_col[OF assms(2)] by (auto simp: bidx_def)
  then show ?thesis
    using S(1,2) assms(1) by simp
qed

lemma locate_zcol:
  assumes "j < n2" "i < n3"
  shows "(locate [n1, n2, n3] [All, Ixn j, Ixn i] x = None) = (\<not> (\<exists>k<n1. x = [k, j, i]))"
proof (cases "length x = 3")
  case False
  then show ?thesis by (auto simp: locate_wrong_length)
next
  case True
  then obtain x1 x2 x3 where "x = [x1, x2, x3]"
    using len3 by blast
  then show ?thesis using assms by (auto simp: inb_def)
qed

lemma setitem_zcol:
  assumes "shape dV = [n1, n2, n3]" "j < n2" "i < n3"
  shows "\<exists>dV'. setitem dV [All, Ixn j, Ixn i] (scalar v) = Some dV' \<and> shape dV' = [n1, n2, n3] \<and>
           (\<forall>x. data dV' x = (if \<exists>k<n1. x = [k, j, i] then v else data dV x))"
proof -
  have ok: "ix_ok (shape dV) [All, Ixn j, Ixn i]"
    using assms by simp
  obtain dV' where S: "setitem dV [All, Ixn j, Ixn i] (scalar v) = Some dV'"
      "shape dV' = shape dV"
      "\<And>x. data dV' x =
         (if locate (shape dV) [All, Ixn j, Ixn i] x = None then data dV x else v)"
    using setitem_scalar[OF ok] by blast
  have "data dV' x = (if \<exists>k<n1. x = [k, j, i] then v else data dV x)" for x
    unfolding S(3) assms(1) locate_zcol[OF assms(2,3)] by auto
  then show ?thesis
    using S(1,2) assms(1) by simp
qed

lemma for_each_pair_patched:
  assumes "\<And>c P A. c \<in> set cs \<Longrightarrow> Inv P \<Longrightarrow> shape A = sh \<Longrightarrow>
              \<exists>P' A'. body c (P, A) = Some (P', A') \<and> Inv P' \<and> patched sh (R c) T A A'"
    and "Inv P" "shape A = sh"
  shows "\<exists>P' A'. for_each cs body (P, A) = Some (P', A') \<and> Inv P' \<and>
           patched sh (\<lambda>x. \<exists>c \<in> set cs. R c x) T A A'"
  using assms
proof (induction cs arbitrary: P A)
  case Nil
  then show ?case by (simp add: patched_def)
next
  case (Cons c cs)
  have "c \<in> set (c # cs)" by simp
  from Cons.prems(1)[OF this Cons.prems(2,3)]
  obtain P1 A1 where b: "body c (P, A) = Some (P1, A1)" and i1: "Inv P1"
    and p1: "patched sh (R c) T A A1"
    by blast
  have s1: "shape A1 = sh" using p1 by (simp add: patched_def)
  have step: "\<And>c' P A. c' \<in> set cs \<Longrightarrow> Inv P \<Longrightarrow> shape A = sh \<Longrightarrow>
              \<exists>P' A'. body c' (P, A) = Some (P', A') \<and> Inv P' \<and> patched sh (R c') T A A'"
    using Cons.prems(1) by simp
  from Cons.IH[OF step i1 s1]
  obtain P2 A2 where f: "for_each cs body (P1, A1) = Some (P2, A2)" and i2: "Inv P2"
      and p2: "patched sh (\<lambda>x. \<exists>c \<in> set cs. R c x) T A1 A2"
    by blast
  have "patched sh (\<lambda>x. \<exists>c' \<in> set (c # cs). R c' x) T A A2"
    using p1 p2 by (auto simp: patched_def)
  then show ?case using b f i2 by simp
qed

section \<open>Gas variables: facts\<close>

subsection \<open>Cell volumes\<close>

lemma Volume_cell_shape:
  assumes "Volume_cell hvol X Y Z k j i st = Some st'"
  shows "shape (snd st') = shape (snd st)"
proof -
  obtain P dV where st: "st = (P, dV)" by (cases st)
  from assms show ?thesis
    unfolding Volume_cell_def st prod.case
    apply (elim bindE)
    apply (drule setitem_shape)+
    apply auto
    done
qed

lemma Volume_loops_shape:
  assumes "for_each cs (\<lambda>j. for_each (cs' j) (\<lambda>i. Volume_cell hvol X Y Z 0 j i)) s = Some s'"
  shows "shape (snd s') = shape (snd s)"
proof (rule for_each_pres[where f = "\<lambda>s. shape (snd s)", OF _ assms])
  fix c s s'
  assume "for_each (cs' c) (Volume_cell hvol X Y Z 0 c) s = Some s'"
  then show "shape (snd s') = shape (snd s)"
    by (rule for_each_pres[where f = "\<lambda>s. shape (snd s)", rotated]) (rule Volume_cell_shape)
qed

lemma Volume_shape:
  assumes "Volume hvol Xg Yg Zg = Some dV" "shape Xg = [Ngk, Ngj, Ngi]"
  shows "shape dV = [Ngk - 9, Ngj - 9, Ngi - 9]"
proof -
  from assms(1) obtain X Y Z dV0 st where
    zz: "np_zeros [int Ngk - 2 * int NumG - 1, int Ngj - 2 * int NumG - 1,
           int Ngi - 2 * int NumG - 1] = Some (dV0 :: real ndarray)"
    and f: "for_each (py_range (int Ngj - 2 * int NumG - 1)) (\<lambda>j.
              for_each (py_range (int Ngi - 2 * int NumG - 1)) (\<lambda>i. Volume_cell hvol X Y Z 0 j i))
              (zeros [8, 3], dV0) = Some st"
    and r: "Some (snd st) = Some dV"
    unfolding Volume_def assms(2) list.case Let_def
    by (elim bindE)
  have "shape (snd st) = shape dV0"
    using Volume_loops_shape[OF f] by simp
  moreover have "nat (int n - 9) = n - 9" for n :: nat
    by arith
  ultimately show ?thesis using r np_zeros3_shape[OF zz] by (simp add: NumG_def)
qed

lemma getitem_strip:
  assumes "shape Xg = [a, b, c]" "8 \<le> a" "8 \<le> b" "8 \<le> c"
  shows "\<exists>X. getitem Xg [Sl (int NumG) (- int NumG), Sl (int NumG) (- int NumG),
                         Sl (int NumG) (- int NumG)] = Some X \<and>
           shape X = [a - 8, b - 8, c - 8] \<and>
           (\<forall>k j i. data X [k, j, i] = data Xg [4 + k, 4 + j, 4 + i])"
  using assms by (simp add: getitem_def bound_def NumG_def nat_diff_distrib')

lemma ghostless_props:
  assumes "shape Xg = [a, b, c]" "8 \<le> a" "8 \<le> b" "8 \<le> c"
  shows "getitem Xg [Sl (int NumG) (- int NumG), Sl (int NumG) (- int NumG),
                     Sl (int NumG) (- int NumG)] = Some (ghostless Xg)"
    and "shape (ghostless Xg) = [a - 8, b - 8, c - 8]"
    and "data (ghostless Xg) [k, j, i] = data Xg [4 + k, 4 + j, 4 + i]"
  using getitem_strip[OF assms] unfolding ghostless_def by auto

lemma Volume_cell_patched:
  assumes X: "shape X = [n1, n2, n3]" and Y: "shape Y = [n1, n2, n3]"
    and Z: "shape Z = [n1, n2, n3]"
    and b: "k + 2 \<le> n1" "j + 2 \<le> n2" "i + 2 \<le> n3"
    and P: "shape P = [8, 3]" "\<forall>x. \<not> (\<exists>n<8. \<exists>c<3. x = [n, c]) \<longrightarrow> data P x = 0"
    and dV: "shape dV = [m1, m2, m3]" "j < m2" "i < m3"
    and h: "hvol (cell_pts X Y Z k j i) = Some v"
  shows "\<exists>dV'. Volume_cell hvol X Y Z k j i (P, dV) = Some (cell_pts X Y Z k j i, dV') \<and>
           patched [m1, m2, m3] (\<lambda>x. \<exists>k'<m1. x = [k', j, i])
             (\<lambda>x. case x of [k', j', i'] \<Rightarrow> the (hvol (cell_pts X Y Z k j' i')) | _ \<Rightarrow> 0) dV dV'"
proof -
  obtain cx where cx: "getitem X [Sln k (k + 2), Sln j (j + 2), Sln i (i + 2)] = Some cx"
    "shape cx = [2,2,2]" "\<And>x y z. data cx [x,y,z] = data X [k + x, j + y, i + z]"
    using getitem_blk3[OF X b] by blast
  obtain cy where cy: "getitem Y [Sln k (k + 2), Sln j (j + 2), Sln i (i + 2)] = Some cy"
    "shape cy = [2,2,2]" "\<And>x y z. data cy [x,y,z] = data Y [k + x, j + y, i + z]"
    using getitem_blk3[OF Y b] by blast
  obtain cz where cz: "getitem Z [Sln k (k + 2), Sln j (j + 2), Sln i (i + 2)] = Some cz"
    "shape cz = [2,2,2]" "\<And>x y z. data cz [x,y,z] = data Z [k + x, j + y, i + z]"
    using getitem_blk3[OF Z b] by blast
  obtain p0 where p0: "setitem P [All, Ixn 0] (flatten cx) = Some p0" "shape p0 = [8, 3]"
    "\<And>x. data p0 x = (if \<exists>n<8. x = [n, 0] then data (flatten cx) [hd x] else data P x)"
    using setitem_col[OF P(1) _ flatten_222(1)[OF cx(2)], of 0] by auto
  obtain p1 where p1: "setitem p0 [All, Ixn 1] (flatten cy) = Some p1" "shape p1 = [8, 3]"
    "\<And>x. data p1 x = (if \<exists>n<8. x = [n, 1] then data (flatten cy) [hd x] else data p0 x)"
    using setitem_col[OF p0(2) _ flatten_222(1)[OF cy(2)], of 1] by auto
  obtain p2 where p2: "setitem p1 [All, Ixn 2] (flatten cz) = Some p2" "shape p2 = [8, 3]"
    "\<And>x. data p2 x = (if \<exists>n<8. x = [n, 2] then data (flatten cz) [hd x] else data p1 x)"
    using setitem_col[OF p1(2) _ flatten_222(1)[OF cz(2)], of 2] by auto
  have d: "data p2 x = data (cell_pts X Y Z k j i) x" for x
  proof (cases "\<exists>n<8. \<exists>c<3. x = [n, c]")
    case True
    then obtain n c where x: "x = [n, c]" "n < 8" "c < 3" by blast
    then have "c = 0 \<or> c = 1 \<or> c = 2" by arith
    then show ?thesis
      using x(2)
      by (elim disjE)
         (simp_all add: x(1) p2(3) p1(3) p0(3) flatten_222(2)[OF cx(2)] flatten_222(2)[OF cy(2)]
            flatten_222(2)[OF cz(2)] cx(3) cy(3) cz(3) cell_pts_def)
  next
    case False
    then have "data P x = 0" using P(2) by blast
    moreover have "\<not> (\<exists>n<8. x = [n, 0])" "\<not> (\<exists>n<8. x = [n, 1])" "\<not> (\<exists>n<8. x = [n, 2])"
      using False by fastforce+
    then have "data p2 x = data P x"
      by (simp only: p2(3) p1(3) p0(3) if_False)
    moreover have "data (cell_pts X Y Z k j i) x = 0"
      using False by (auto simp: cell_pts_def split: list.splits)
    ultimately show ?thesis by simp
  qed
  have e: "p2 = cell_pts X Y Z k j i"
  proof -
    have "shape p2 = shape (cell_pts X Y Z k j i)"
      using p2(2) by (simp add: cell_pts_def)
    moreover have "data p2 = data (cell_pts X Y Z k j i)"
      using d by (rule ext)
    ultimately show ?thesis by simp
  qed
  obtain dV' where s: "setitem dV [All, Ixn j, Ixn i] (scalar v) = Some dV'"
    "shape dV' = [m1, m2, m3]"
    "\<And>x. data dV' x = (if \<exists>k'<m1. x = [k', j, i] then v else data dV x)"
    using setitem_zcol[OF dV] by blast
  have run: "Volume_cell hvol X Y Z k j i (P, dV) = Some (cell_pts X Y Z k j i, dV')"
    unfolding Volume_cell_def prod.case
    by (simp only: cx(1) cy(1) cz(1) p0(1) p1(1) p2(1) e h s(1) Option.bind.simps)
  have "patched [m1, m2, m3] (\<lambda>x. \<exists>k'<m1. x = [k', j, i])
             (\<lambda>x. case x of [k', j', i'] \<Rightarrow> the (hvol (cell_pts X Y Z k j' i')) | _ \<Rightarrow> 0) dV dV'"
    unfolding patched_def using s(2,3) h by auto
  then show ?thesis using run by blast
qed

lemma Volume_run:
  assumes Xg: "shape Xg = [Nk + 9, Nj + 9, Ni + 9]" and Yg: "shape Yg = [Nk + 9, Nj + 9, Ni + 9]"
    and Zg: "shape Zg = [Nk + 9, Nj + 9, Ni + 9]"
    and k: "1 \<le> Nk"
    and h: "\<forall>j<Nj. \<forall>i<Ni.
              hvol (cell_pts (ghostless Xg) (ghostless Yg) (ghostless Zg) 0 j i) \<noteq> None"
  shows "\<exists>dV. Volume hvol Xg Yg Zg = Some dV \<and> shape dV = [Nk, Nj, Ni] \<and>
           (\<forall>k<Nk. \<forall>j<Nj. \<forall>i<Ni. data dV [k, j, i] =
              the (hvol (cell_pts (ghostless Xg) (ghostless Yg) (ghostless Zg) 0 j i)))"
proof -
  let ?X = "ghostless Xg" and ?Y = "ghostless Yg" and ?Z = "ghostless Zg"
  let ?Inv = "\<lambda>P :: real ndarray. shape P = [8, 3] \<and>
                 (\<forall>x. \<not> (\<exists>n<8. \<exists>c<3. x = [n, c]) \<longrightarrow> data P x = 0)"
  let ?T = "\<lambda>x. case x of [k', j', i'] \<Rightarrow> the (hvol (cell_pts ?X ?Y ?Z 0 j' i')) | _ \<Rightarrow> 0"
  have gX: "getitem Xg [Sl (int NumG) (- int NumG), Sl (int NumG) (- int NumG),
                     Sl (int NumG) (- int NumG)] = Some ?X"
    and sX: "shape ?X = [Nk + 1, Nj + 1, Ni + 1]"
    using ghostless_props(1,2)[OF Xg] by simp_all
  have gY: "getitem Yg [Sl (int NumG) (- int NumG), Sl (int NumG) (- int NumG),
                     Sl (int NumG) (- int NumG)] = Some ?Y"
    and sY: "shape ?Y = [Nk + 1, Nj + 1, Ni + 1]"
    using ghostless_props(1,2)[OF Yg] by simp_all
  have gZ: "getitem Zg [Sl (int NumG) (- int NumG), Sl (int NumG) (- int NumG),
                     Sl (int NumG) (- int NumG)] = Some ?Z"
    and sZ: "shape ?Z = [Nk + 1, Nj + 1, Ni + 1]"
    using ghostless_props(1,2)[OF Zg] by simp_all
  have n: "int (Nk + 9) - 2 * int NumG - 1 = int Nk" "int (Nj + 9) - 2 * int NumG - 1 = int Nj"
    "int (Ni + 9) - 2 * int NumG - 1 = int Ni"
    by (simp_all add: NumG_def)
  have z: "np_zeros [int Nk, int Nj, int Ni] = Some (zeros [Nk, Nj, Ni] :: real ndarray)"
    by (simp add: np_zeros_def)
  have i0: "?Inv (zeros [8, 3])"
    by (simp add: zeros_def)
  have cellI: "?Inv (cell_pts ?X ?Y ?Z 0 j i)" for j i
    by (auto simp: cell_pts_def split: list.splits)
  have inner: "\<exists>P' A'. for_each (py_range (int Ni)) (\<lambda>i. Volume_cell hvol ?X ?Y ?Z 0 j i) (P, A)
                   = Some (P', A') \<and> ?Inv P' \<and>
                 patched [Nk, Nj, Ni] (\<lambda>x. \<exists>i \<in> set (py_range (int Ni)). \<exists>k'<Nk. x = [k', j, i]) ?T A A'"
    if j: "j < Nj" and P: "?Inv P" and A: "shape A = [Nk, Nj, Ni]" for j P and A :: "real ndarray"
  proof (rule for_each_pair_patched[where Inv = ?Inv, OF _ P A])
    fix c P and A :: "real ndarray"
    assume c: "c \<in> set (py_range (int Ni))" and P: "?Inv P" and A: "shape A = [Nk, Nj, Ni]"
    have ci: "c < Ni" using c by (simp add: py_range_def)
    obtain v where v: "hvol (cell_pts ?X ?Y ?Z 0 j c) = Some v"
      using h j ci by blast
    have b: "0 + 2 \<le> Nk + 1" "j + 2 \<le> Nj + 1" "c + 2 \<le> Ni + 1"
      using k j ci by simp_all
    from Volume_cell_patched[where hvol = hvol and k = 0 and j = j and i = c,
        OF sX sY sZ b conjunct1[OF P] conjunct2[OF P] A j ci v]
    obtain dV' where "Volume_cell hvol ?X ?Y ?Z 0 j c (P, A) = Some (cell_pts ?X ?Y ?Z 0 j c, dV')"
      "patched [Nk, Nj, Ni] (\<lambda>x. \<exists>k'<Nk. x = [k', j, c]) ?T A dV'"
      by blast
    then show "\<exists>P' A'. Volume_cell hvol ?X ?Y ?Z 0 j c (P, A) = Some (P', A') \<and> ?Inv P' \<and>
                 patched [Nk, Nj, Ni] (\<lambda>x. \<exists>k'<Nk. x = [k', j, c]) ?T A A'"
      using cellI by blast
  qed
  have outer: "\<exists>P' A'. for_each (py_range (int Nj)) (\<lambda>j.
                   for_each (py_range (int Ni)) (\<lambda>i. Volume_cell hvol ?X ?Y ?Z 0 j i))
                   (zeros [8, 3], zeros [Nk, Nj, Ni]) = Some (P', A') \<and> ?Inv P' \<and>
                 patched [Nk, Nj, Ni]
                   (\<lambda>x. \<exists>j \<in> set (py_range (int Nj)). \<exists>i \<in> set (py_range (int Ni)). \<exists>k'<Nk. x = [k', j, i])
                   ?T (zeros [Nk, Nj, Ni]) A'"
  proof (rule for_each_pair_patched[where Inv = ?Inv, OF _ i0])
    fix c P and A :: "real ndarray"
    assume c: "c \<in> set (py_range (int Nj))" and P: "?Inv P" and A: "shape A = [Nk, Nj, Ni]"
    have "c < Nj" using c by (simp add: py_range_def)
    then show "\<exists>P' A'. for_each (py_range (int Ni)) (Volume_cell hvol ?X ?Y ?Z 0 c) (P, A)
                   = Some (P', A') \<and> ?Inv P' \<and>
                 patched [Nk, Nj, Ni] (\<lambda>x. \<exists>i \<in> set (py_range (int Ni)). \<exists>k'<Nk. x = [k', c, i]) ?T A A'"
      using inner P A by blast
  next
    show "shape (zeros [Nk, Nj, Ni] :: real ndarray) = [Nk, Nj, Ni]"
      by (simp add: zeros_def)
  qed
  then obtain P' dV where f: "for_each (py_range (int Nj)) (\<lambda>j.
                   for_each (py_range (int Ni)) (\<lambda>i. Volume_cell hvol ?X ?Y ?Z 0 j i))
                   (zeros [8, 3], zeros [Nk, Nj, Ni]) = Some (P', dV)"
    and p: "patched [Nk, Nj, Ni]
                   (\<lambda>x. \<exists>j \<in> set (py_range (int Nj)). \<exists>i \<in> set (py_range (int Ni)). \<exists>k'<Nk. x = [k', j, i])
                   ?T (zeros [Nk, Nj, Ni]) dV"
    by blast
  have run: "Volume hvol Xg Yg Zg = Some dV"
    unfolding Volume_def Xg list.case Let_def n
    by (simp only: gX gY gZ z f Option.bind.simps snd_conv)
  have "data dV [k', j, i] = the (hvol (cell_pts ?X ?Y ?Z 0 j i))"
    if "k' < Nk" "j < Nj" "i < Ni" for k' j i
  proof -
    have "\<exists>j' \<in> set (py_range (int Nj)). \<exists>i' \<in> set (py_range (int Ni)). \<exists>k''<Nk. [k', j, i] = [k'', j', i']"
      using that by (simp add: py_range_def)
    then show ?thesis
      using p unfolding patched_def by simp
  qed
  then show ?thesis
    using run p by (simp add: patched_def)
qed

subsection \<open>Single elements\<close>

lemma locate_pt5:
  assumes "s < n1" "v < n2" "k < n3" "j < n4" "i < n5"
  shows "(locate [n1,n2,n3,n4,n5] [Ixn s, Ixn v, Ixn k, Ixn j, Ixn i] x = None) = (x \<noteq> [s,v,k,j,i])"
proof (cases "length x = 5")
  case False
  then show ?thesis by (auto simp: locate_wrong_length)
next
  case True
  then obtain x1 x2 x3 x4 x5 where "x = [x1,x2,x3,x4,x5]"
    using len5 by blast
  then show ?thesis using assms by (simp add: inb_def)
qed

lemma locate_pt4:
  assumes "d < n1" "k < n2" "j < n3" "i < n4"
  shows "(locate [n1,n2,n3,n4] [Ixn d, Ixn k, Ixn j, Ixn i] x = None) = (x \<noteq> [d,k,j,i])"
proof (cases "length x = 4")
  case False
  then show ?thesis by (auto simp: locate_wrong_length)
next
  case True
  then obtain x1 x2 x3 x4 where "x = [x1,x2,x3,x4]"
    using len4 by blast
  then show ?thesis using assms by (simp add: inb_def)
qed

lemma locate_pt3:
  assumes "k < n1" "j < n2" "i < n3"
  shows "(locate [n1,n2,n3] [Ixn k, Ixn j, Ixn i] x = None) = (x \<noteq> [k,j,i])"
proof (cases "length x = 3")
  case False
  then show ?thesis by (auto simp: locate_wrong_length)
next
  case True
  then obtain x1 x2 x3 where "x = [x1,x2,x3]"
    using len3 by blast
  then show ?thesis using assms by (simp add: inb_def)
qed

lemma setitem_blk5:
  assumes "shape A = [n1,n2,n3,n4,n5]" "s < n1" "v < n2" "a + 2 \<le> n3" "b + 2 \<le> n4" "c + 2 \<le> n5"
    "shape B = [2,2,2]"
  shows "\<exists>A'. setitem A [Ixn s, Ixn v, Sln a (a+2), Sln b (b+2), Sln c (c+2)] B = Some A' \<and>
     shape A' = shape A \<and>
     (\<forall>x. length x \<noteq> 5 \<longrightarrow> data A' x = data A x) \<and>
     (\<forall>x1 x2 x3 x4 x5. data A' [x1,x2,x3,x4,x5] =
        (if x1 = s \<and> x2 = v \<and> a \<le> x3 \<and> x3 < a + 2 \<and> b \<le> x4 \<and> x4 < b + 2 \<and> c \<le> x5 \<and> x5 < c + 2
         then data B [x3 - a, x4 - b, x5 - c] else data A [x1,x2,x3,x4,x5]))"
proof -
  let ?is = "[Ixn s, Ixn v, Sln a (a+2), Sln b (b+2), Sln c (c+2)]"
  have ok: "ix_ok (shape A) ?is" using assms by simp
  have reg: "region (shape A) ?is = [2,2,2]"
    using assms by (simp add: min_absorb1 min_absorb2)
  obtain A' where s: "setitem A ?is B = Some A'"
    using ok reg assms(7) by (simp add: setitem_def)
  have 1: "data A' x = data A x" if "length x \<noteq> 5" for x
    using setitem_data[OF s, of x] that assms(1) by (simp add: locate_wrong_length)
  have 2: "data A' [x1,x2,x3,x4,x5] =
        (if x1 = s \<and> x2 = v \<and> a \<le> x3 \<and> x3 < a + 2 \<and> b \<le> x4 \<and> x4 < b + 2 \<and> c \<le> x5 \<and> x5 < c + 2
         then data B [x3 - a, x4 - b, x5 - c] else data A [x1,x2,x3,x4,x5])" for x1 x2 x3 x4 x5
    using setitem_data[OF s, of "[x1,x2,x3,x4,x5]"] assms
    by (simp add: inb_def min_absorb1 min_absorb2)
  show ?thesis using s 1 2 setitem_shape[OF s] by blast
qed

subsection \<open>Doubling\<close>

lemma in_blk_length: "in_blk s v k j i x \<Longrightarrow> length x = 5"
  by (auto simp: in_blk_def split: list.splits)

lemma div2_eq_iff: "(x div 2 = k) = (2 * k \<le> x \<and> x < 2 * k + 2)" for k x :: nat
  by auto

lemma upGas_cell_patched:
  assumes G: "shape G = [Ns, Nv, Nk, Nj, Ni]" and dV: "shape dV = [Nk, Nj, Ni]"
    and dVu: "shape dVu = [2*Nk, 2*Nj, 2*Ni]" and Gu: "shape Gu = [Ns, Nv, 2*Nk, 2*Nj, 2*Ni]"
    and b: "s < Ns" "v < Nv" "k < Nk" "j < Nj" "i < Ni"
  shows "\<exists>Gu'. upGas_cell dV dVu G s v k j i Gu = Some Gu' \<and>
           patched [Ns, Nv, 2*Nk, 2*Nj, 2*Ni] (in_blk s v k j i) (upGas_val dV dVu G) Gu Gu'"
proof -
  have e1: "elem G [s, v, k, j, i] = Some (data G [s, v, k, j, i])"
    using G b by (simp add: elem_def inb_def)
  have e2: "elem dV [k, j, i] = Some (data dV [k, j, i])"
    using dV b by (simp add: elem_def inb_def)
  obtain B where B: "getitem dVu [Sln (2*k) (2*k+2), Sln (2*j) (2*j+2), Sln (2*i) (2*i+2)] = Some B"
      "shape B = [2,2,2]" "\<And>x y z. data B [x,y,z] = data dVu [2*k+x, 2*j+y, 2*i+z]"
    using getitem_blk3[OF dVu, of "2*k" "2*j" "2*i"] b by auto
  have sm: "np_sum B = blk_sum (data dVu) k j i"
    by (simp add: np_sum_222[OF B(2)] B(3) blk_sum_def)
  obtain W where W: "np_binop (/) B (scalar (np_sum B)) = Some W" "shape W = [2,2,2]"
      "\<And>x y z. data W [x,y,z] = data B [x,y,z] / np_sum B"
    using np_binop_222_scalar[OF B(2)] by blast
  obtain Q where Q: "np_binop (*) (scalar (data G [s, v, k, j, i] * data dV [k, j, i])) W = Some Q"
      "shape Q = [2,2,2]"
      "\<And>x y z. data Q [x,y,z] = data G [s, v, k, j, i] * data dV [k, j, i] * data W [x,y,z]"
    using np_binop_scalar_222[OF W(2)] by blast
  obtain R where R: "np_binop (/) Q B = Some R" "shape R = [2,2,2]"
      "\<And>x y z. data R [x,y,z] = data Q [x,y,z] / data B [x,y,z]"
    using np_binop_222[OF Q(2) B(2)] by blast
  obtain Gu' where S:
      "setitem Gu [Ixn s, Ixn v, Sln (2*k) (2*k+2), Sln (2*j) (2*j+2), Sln (2*i) (2*i+2)] R = Some Gu'"
      "shape Gu' = shape Gu" "\<And>x. length x \<noteq> 5 \<Longrightarrow> data Gu' x = data Gu x"
      "\<And>x1 x2 x3 x4 x5. data Gu' [x1,x2,x3,x4,x5] =
        (if x1 = s \<and> x2 = v \<and> 2*k \<le> x3 \<and> x3 < 2*k + 2 \<and> 2*j \<le> x4 \<and> x4 < 2*j + 2
            \<and> 2*i \<le> x5 \<and> x5 < 2*i + 2
         then data R [x3 - 2*k, x4 - 2*j, x5 - 2*i] else data Gu [x1,x2,x3,x4,x5])"
    using setitem_blk5[OF Gu, of s v "2*k" "2*j" "2*i" R] b R(2) by auto
  have run: "upGas_cell dV dVu G s v k j i Gu = Some Gu'"
    by (simp only: upGas_cell_def e1 e2 B(1) W(1) Q(1) R(1) S(1) Let_def Option.bind.simps)
  have "data Gu' x = (if in_blk s v k j i x then upGas_val dV dVu G x else data Gu x)" for x
  proof (cases "length x = 5")
    case False
    then show ?thesis using S(3) in_blk_length by metis
  next
    case True
    then obtain x1 x2 x3 x4 x5 where x: "x = [x1,x2,x3,x4,x5]"
      using len5 by blast
    show ?thesis
    proof (cases "in_blk s v k j i x")
      case False
      then show ?thesis
        using x S(4)[of x1 x2 x3 x4 x5] by (auto simp: in_blk_def div2_eq_iff)
    next
      case True
      then have t: "x1 = s" "x2 = v" "x3 div 2 = k" "x4 div 2 = j" "x5 div 2 = i"
        by (simp_all add: in_blk_def x)
      have r: "2*k + (x3 - 2*k) = x3" "2*j + (x4 - 2*j) = x4" "2*i + (x5 - 2*i) = x5"
        using t by auto
      have "data Gu' x = data R [x3 - 2*k, x4 - 2*j, x5 - 2*i]"
        using x S(4)[of x1 x2 x3 x4 x5] t(1,2) t(3-5)[unfolded div2_eq_iff] by simp
      also have "\<dots> = upGas_val dV dVu G x"
        by (simp add: R(3) Q(3) W(3) B(3) sm r upGas_val_def x t)
      finally show ?thesis using True by simp
    qed
  qed
  then show ?thesis
    using run S(2) Gu by (auto simp: patched_def)
qed

lemma upGas_loops:
  assumes G: "shape G = [Ns, Nv, Nk, Nj, Ni]" and dV: "shape dV = [Nk, Nj, Ni]"
    and dVu: "shape dVu = [2*Nk, 2*Nj, 2*Ni]"
  shows "\<exists>Gu. for_each [0..<Ns] (\<lambda>s.
              for_each [0..<Nv] (\<lambda>v.
                for_each [0..<Nk] (\<lambda>k.
                  for_each [0..<Nj] (\<lambda>j.
                    for_each [0..<Ni] (\<lambda>i. upGas_cell dV dVu G s v k j i)))))
              (zeros [Ns, Nv, 2 * Nk, 2 * Nj, 2 * Ni]) = Some Gu \<and>
           patched [Ns, Nv, 2*Nk, 2*Nj, 2*Ni]
             (\<lambda>x. \<exists>s\<in>set [0..<Ns]. \<exists>v\<in>set [0..<Nv]. \<exists>k\<in>set [0..<Nk].
                     \<exists>j\<in>set [0..<Nj]. \<exists>i\<in>set [0..<Ni]. in_blk s v k j i x)
             (upGas_val dV dVu G) (zeros [Ns, Nv, 2 * Nk, 2 * Nj, 2 * Ni]) Gu"
proof (rule for_each_patched)
  show "shape (zeros [Ns, Nv, 2 * Nk, 2 * Nj, 2 * Ni] :: real ndarray) = [Ns, Nv, 2 * Nk, 2 * Nj, 2 * Ni]"
    by (simp add: zeros_def)
next
  fix s and A :: "real ndarray"
  assume s: "s \<in> set [0..<Ns]" and A: "shape A = [Ns, Nv, 2 * Nk, 2 * Nj, 2 * Ni]"
  show "\<exists>A'. for_each [0..<Nv] (\<lambda>v.
                for_each [0..<Nk] (\<lambda>k.
                  for_each [0..<Nj] (\<lambda>j.
                    for_each [0..<Ni] (\<lambda>i. upGas_cell dV dVu G s v k j i)))) A = Some A' \<and>
           patched [Ns, Nv, 2*Nk, 2*Nj, 2*Ni]
             (\<lambda>x. \<exists>v\<in>set [0..<Nv]. \<exists>k\<in>set [0..<Nk].
                     \<exists>j\<in>set [0..<Nj]. \<exists>i\<in>set [0..<Ni]. in_blk s v k j i x)
             (upGas_val dV dVu G) A A'"
  proof (rule for_each_patched[OF _ A])
    fix v and A :: "real ndarray"
    assume v: "v \<in> set [0..<Nv]" and A: "shape A = [Ns, Nv, 2 * Nk, 2 * Nj, 2 * Ni]"
    show "\<exists>A'. for_each [0..<Nk] (\<lambda>k.
                  for_each [0..<Nj] (\<lambda>j.
                    for_each [0..<Ni] (\<lambda>i. upGas_cell dV dVu G s v k j i))) A = Some A' \<and>
           patched [Ns, Nv, 2*Nk, 2*Nj, 2*Ni]
             (\<lambda>x. \<exists>k\<in>set [0..<Nk]. \<exists>j\<in>set [0..<Nj]. \<exists>i\<in>set [0..<Ni]. in_blk s v k j i x)
             (upGas_val dV dVu G) A A'"
    proof (rule for_each_patched[OF _ A])
      fix k and A :: "real ndarray"
      assume k: "k \<in> set [0..<Nk]" and A: "shape A = [Ns, Nv, 2 * Nk, 2 * Nj, 2 * Ni]"
      show "\<exists>A'. for_each [0..<Nj] (\<lambda>j.
                    for_each [0..<Ni] (\<lambda>i. upGas_cell dV dVu G s v k j i)) A = Some A' \<and>
           patched [Ns, Nv, 2*Nk, 2*Nj, 2*Ni]
             (\<lambda>x. \<exists>j\<in>set [0..<Nj]. \<exists>i\<in>set [0..<Ni]. in_blk s v k j i x)
             (upGas_val dV dVu G) A A'"
      proof (rule for_each_patched[OF _ A])
        fix j and A :: "real ndarray"
        assume j: "j \<in> set [0..<Nj]" and A: "shape A = [Ns, Nv, 2 * Nk, 2 * Nj, 2 * Ni]"
        show "\<exists>A'. for_each [0..<Ni] (\<lambda>i. upGas_cell dV dVu G s v k j i) A = Some A' \<and>
           patched [Ns, Nv, 2*Nk, 2*Nj, 2*Ni]
             (\<lambda>x. \<exists>i\<in>set [0..<Ni]. in_blk s v k j i x)
             (upGas_val dV dVu G) A A'"
        proof (rule for_each_patched[OF _ A])
          fix i and A :: "real ndarray"
          assume i: "i \<in> set [0..<Ni]" and A: "shape A = [Ns, Nv, 2 * Nk, 2 * Nj, 2 * Ni]"
          show "\<exists>A'. upGas_cell dV dVu G s v k j i A = Some A' \<and>
             patched [Ns, Nv, 2*Nk, 2*Nj, 2*Ni] (in_blk s v k j i) (upGas_val dV dVu G) A A'"
            using upGas_cell_patched[OF G dV dVu A] s v k j i by simp
        qed
      qed
    qed
  qed
qed

subsection \<open>Halving\<close>

lemma downGas_cell_patched:
  assumes G: "shape G = [Ns, Nv, Nk, Nj, Ni]" and dV: "shape dV = [Nk, Nj, Ni]"
    and dVd: "shape dVd = [Nk div 2, Nj div 2, Ni div 2]"
    and Gd: "shape Gd = [Ns, Nv, Nk div 2, Nj div 2, Ni div 2]"
    and b: "s < Ns" "v < Nv" "k < Nk div 2" "j < Nj div 2" "i < Ni div 2"
  shows "\<exists>Gd'. downGas_cell dV dVd G s v k j i Gd = Some Gd' \<and>
           patched [Ns, Nv, Nk div 2, Nj div 2, Ni div 2] (\<lambda>x. x = [s, v, k, j, i])
             (downGas_val dV dVd G) Gd Gd'"
proof -
  have r: "2*k + 2 \<le> Nk" "2*j + 2 \<le> Nj" "2*i + 2 \<le> Ni"
    using b by auto
  obtain B where B: "getitem dV [Sln (2*k) (2*k+2), Sln (2*j) (2*j+2), Sln (2*i) (2*i+2)] = Some B"
      "shape B = [2,2,2]" "\<And>x y z. data B [x,y,z] = data dV [2*k+x, 2*j+y, 2*i+z]"
    using getitem_blk3[OF dV r] by auto
  obtain Q where Q: "getitem G [Ixn s, Ixn v, Sln (2*k) (2*k+2), Sln (2*j) (2*j+2), Sln (2*i) (2*i+2)] = Some Q"
      "shape Q = [2,2,2]" "\<And>x y z. data Q [x,y,z] = data G [s, v, 2*k+x, 2*j+y, 2*i+z]"
    using getitem_blk5[OF G b(1,2) r] by auto
  obtain P where P: "np_binop (*) B Q = Some P" "shape P = [2,2,2]"
      "\<And>x y z. data P [x,y,z] = data B [x,y,z] * data Q [x,y,z]"
    using np_binop_222[OF B(2) Q(2)] by blast
  have e: "elem dVd [k, j, i] = Some (data dVd [k, j, i])"
    using dVd b by (simp add: elem_def inb_def)
  have ok: "ix_ok (shape Gd) [Ixn s, Ixn v, Ixn k, Ixn j, Ixn i]"
    using Gd b by simp
  obtain Gd' where S:
      "setitem Gd [Ixn s, Ixn v, Ixn k, Ixn j, Ixn i] (scalar (np_sum P / data dVd [k, j, i])) = Some Gd'"
      "shape Gd' = shape Gd"
      "\<And>x. data Gd' x =
         (if locate (shape Gd) [Ixn s, Ixn v, Ixn k, Ixn j, Ixn i] x = None then data Gd x
          else np_sum P / data dVd [k, j, i])"
    using setitem_scalar[OF ok] by blast
  have run: "downGas_cell dV dVd G s v k j i Gd = Some Gd'"
    by (simp only: downGas_cell_def B(1) Q(1) P(1) e S(1) Option.bind.simps)
  have v: "np_sum P / data dVd [k, j, i] = downGas_val dV dVd G [s, v, k, j, i]"
    by (simp add: np_sum_222[OF P(2)] P(3) B(3) Q(3) downGas_val_def blk_sum_def)
  have "data Gd' x = (if x = [s, v, k, j, i] then downGas_val dV dVd G x else data Gd x)" for x
    using S(3)[of x] Gd b by (simp add: locate_pt5 v)
  then show ?thesis
    using run S(2) Gd by (simp add: patched_def)
qed

lemma downGas_loops:
  assumes G: "shape G = [Ns, Nv, Nk, Nj, Ni]" and dV: "shape dV = [Nk, Nj, Ni]"
    and dVd: "shape dVd = [Nk div 2, Nj div 2, Ni div 2]"
  shows "\<exists>Gd. for_each [0..<Ns] (\<lambda>s.
              for_each [0..<Nv] (\<lambda>v.
                for_each [0..<Nk div 2] (\<lambda>k.
                  for_each [0..<Nj div 2] (\<lambda>j.
                    for_each [0..<Ni div 2] (\<lambda>i. downGas_cell dV dVd G s v k j i)))))
              (zeros [Ns, Nv, Nk div 2, Nj div 2, Ni div 2]) = Some Gd \<and>
           patched [Ns, Nv, Nk div 2, Nj div 2, Ni div 2]
             (\<lambda>x. \<exists>s\<in>set [0..<Ns]. \<exists>v\<in>set [0..<Nv]. \<exists>k\<in>set [0..<Nk div 2].
                     \<exists>j\<in>set [0..<Nj div 2]. \<exists>i\<in>set [0..<Ni div 2]. x = [s, v, k, j, i])
             (downGas_val dV dVd G) (zeros [Ns, Nv, Nk div 2, Nj div 2, Ni div 2]) Gd"
proof (rule for_each_patched)
  show "shape (zeros [Ns, Nv, Nk div 2, Nj div 2, Ni div 2] :: real ndarray)
          = [Ns, Nv, Nk div 2, Nj div 2, Ni div 2]"
    by (simp add: zeros_def)
next
  fix s and A :: "real ndarray"
  assume s: "s \<in> set [0..<Ns]" and A: "shape A = [Ns, Nv, Nk div 2, Nj div 2, Ni div 2]"
  show "\<exists>A'. for_each [0..<Nv] (\<lambda>v.
                for_each [0..<Nk div 2] (\<lambda>k.
                  for_each [0..<Nj div 2] (\<lambda>j.
                    for_each [0..<Ni div 2] (\<lambda>i. downGas_cell dV dVd G s v k j i)))) A = Some A' \<and>
           patched [Ns, Nv, Nk div 2, Nj div 2, Ni div 2]
             (\<lambda>x. \<exists>v\<in>set [0..<Nv]. \<exists>k\<in>set [0..<Nk div 2].
                     \<exists>j\<in>set [0..<Nj div 2]. \<exists>i\<in>set [0..<Ni div 2]. x = [s, v, k, j, i])
             (downGas_val dV dVd G) A A'"
  proof (rule for_each_patched[OF _ A])
    fix v and A :: "real ndarray"
    assume v: "v \<in> set [0..<Nv]" and A: "shape A = [Ns, Nv, Nk div 2, Nj div 2, Ni div 2]"
    show "\<exists>A'. for_each [0..<Nk div 2] (\<lambda>k.
                  for_each [0..<Nj div 2] (\<lambda>j.
                    for_each [0..<Ni div 2] (\<lambda>i. downGas_cell dV dVd G s v k j i))) A = Some A' \<and>
           patched [Ns, Nv, Nk div 2, Nj div 2, Ni div 2]
             (\<lambda>x. \<exists>k\<in>set [0..<Nk div 2]. \<exists>j\<in>set [0..<Nj div 2]. \<exists>i\<in>set [0..<Ni div 2].
                     x = [s, v, k, j, i])
             (downGas_val dV dVd G) A A'"
    proof (rule for_each_patched[OF _ A])
      fix k and A :: "real ndarray"
      assume k: "k \<in> set [0..<Nk div 2]" and A: "shape A = [Ns, Nv, Nk div 2, Nj div 2, Ni div 2]"
      show "\<exists>A'. for_each [0..<Nj div 2] (\<lambda>j.
                    for_each [0..<Ni div 2] (\<lambda>i. downGas_cell dV dVd G s v k j i)) A = Some A' \<and>
           patched [Ns, Nv, Nk div 2, Nj div 2, Ni div 2]
             (\<lambda>x. \<exists>j\<in>set [0..<Nj div 2]. \<exists>i\<in>set [0..<Ni div 2]. x = [s, v, k, j, i])
             (downGas_val dV dVd G) A A'"
      proof (rule for_each_patched[OF _ A])
        fix j and A :: "real ndarray"
        assume j: "j \<in> set [0..<Nj div 2]" and A: "shape A = [Ns, Nv, Nk div 2, Nj div 2, Ni div 2]"
        show "\<exists>A'. for_each [0..<Ni div 2] (\<lambda>i. downGas_cell dV dVd G s v k j i) A = Some A' \<and>
           patched [Ns, Nv, Nk div 2, Nj div 2, Ni div 2]
             (\<lambda>x. \<exists>i\<in>set [0..<Ni div 2]. x = [s, v, k, j, i])
             (downGas_val dV dVd G) A A'"
        proof (rule for_each_patched[OF _ A])
          fix i and A :: "real ndarray"
          assume i: "i \<in> set [0..<Ni div 2]" and A: "shape A = [Ns, Nv, Nk div 2, Nj div 2, Ni div 2]"
          show "\<exists>A'. downGas_cell dV dVd G s v k j i A = Some A' \<and>
             patched [Ns, Nv, Nk div 2, Nj div 2, Ni div 2] (\<lambda>x. x = [s, v, k, j, i])
               (downGas_val dV dVd G) A A'"
            using downGas_cell_patched[OF G dV dVd A] s v k j i by simp
        qed
      qed
    qed
  qed
qed

lemma upGas_run:
  assumes G: "shape G = [Ns, Nv, Nk, Nj, Ni]"
    and X: "shape X = [Nk + 9, Nj + 9, Ni + 9]" and Xu: "shape Xu = [2*Nk + 9, 2*Nj + 9, 2*Ni + 9]"
    and dV: "Volume hvol X Y Z = Some dV" and dVu: "Volume hvol Xu Yu Zu = Some dVu"
  shows "\<exists>Gu. upGas hvol X Y Z G Xu Yu Zu = Some Gu \<and> shape Gu = [Ns, Nv, 2*Nk, 2*Nj, 2*Ni] \<and>
           (\<forall>s v kf jf if'. s < Ns \<longrightarrow> v < Nv \<longrightarrow> kf < 2*Nk \<longrightarrow> jf < 2*Nj \<longrightarrow> if' < 2*Ni \<longrightarrow>
              data Gu [s, v, kf, jf, if'] = upGas_val dV dVu G [s, v, kf, jf, if'])"
proof -
  have s1: "shape dV = [Nk, Nj, Ni]"
    using Volume_shape[OF dV X] by simp
  have s2: "shape dVu = [2*Nk, 2*Nj, 2*Ni]"
    using Volume_shape[OF dVu Xu] by simp
  obtain Gu where f: "for_each [0..<Ns] (\<lambda>s.
              for_each [0..<Nv] (\<lambda>v.
                for_each [0..<Nk] (\<lambda>k.
                  for_each [0..<Nj] (\<lambda>j.
                    for_each [0..<Ni] (\<lambda>i. upGas_cell dV dVu G s v k j i)))))
              (zeros [Ns, Nv, 2 * Nk, 2 * Nj, 2 * Ni]) = Some Gu"
    and p: "patched [Ns, Nv, 2*Nk, 2*Nj, 2*Ni]
             (\<lambda>x. \<exists>s\<in>set [0..<Ns]. \<exists>v\<in>set [0..<Nv]. \<exists>k\<in>set [0..<Nk].
                     \<exists>j\<in>set [0..<Nj]. \<exists>i\<in>set [0..<Ni]. in_blk s v k j i x)
             (upGas_val dV dVu G) (zeros [Ns, Nv, 2 * Nk, 2 * Nj, 2 * Ni]) Gu"
    using upGas_loops[OF G s1 s2] by blast
  have sh: "shape Gu = [Ns, Nv, 2*Nk, 2*Nj, 2*Ni]"
    and pd: "\<And>x. data Gu x =
       (if \<exists>s\<in>set [0..<Ns]. \<exists>v\<in>set [0..<Nv]. \<exists>k\<in>set [0..<Nk].
                     \<exists>j\<in>set [0..<Nj]. \<exists>i\<in>set [0..<Ni]. in_blk s v k j i x
        then upGas_val dV dVu G x else data (zeros [Ns, Nv, 2 * Nk, 2 * Nj, 2 * Ni]) x)"
    using p unfolding patched_def by blast+
  have run: "upGas hvol X Y Z G Xu Yu Zu = Some Gu"
    by (simp only: upGas_def G list.case dV dVu f Option.bind.simps)
  have "data Gu [s, v, kf, jf, if'] = upGas_val dV dVu G [s, v, kf, jf, if']"
    if "s < Ns" "v < Nv" "kf < 2*Nk" "jf < 2*Nj" "if' < 2*Ni" for s v kf jf if'
  proof -
    have "kf div 2 < Nk" "jf div 2 < Nj" "if' div 2 < Ni"
      using that by auto
    then have "\<exists>s'\<in>set [0..<Ns]. \<exists>v'\<in>set [0..<Nv]. \<exists>k\<in>set [0..<Nk].
                     \<exists>j\<in>set [0..<Nj]. \<exists>i\<in>set [0..<Ni]. in_blk s' v' k j i [s, v, kf, jf, if']"
      using that
      by (intro bexI[of _ s] bexI[of _ v] bexI[of _ "kf div 2"] bexI[of _ "jf div 2"]
            bexI[of _ "if' div 2"]) (simp_all add: in_blk_def)
    then show ?thesis
      using pd by (simp only: if_True)
  qed
  then show ?thesis
    using run sh by blast
qed

lemma downGas_run:
  assumes G: "shape G = [Ns, Nv, Nk, Nj, Ni]"
    and X: "shape X = [Nk + 9, Nj + 9, Ni + 9]"
    and Xd: "shape Xd = [Nk div 2 + 9, Nj div 2 + 9, Ni div 2 + 9]"
    and dV: "Volume hvol X Y Z = Some dV" and dVd: "Volume hvol Xd Yd Zd = Some dVd"
  shows "\<exists>Gd. downGas hvol X Y Z G Xd Yd Zd = Some Gd \<and>
           shape Gd = [Ns, Nv, Nk div 2, Nj div 2, Ni div 2] \<and>
           (\<forall>s v k j i. s < Ns \<longrightarrow> v < Nv \<longrightarrow> k < Nk div 2 \<longrightarrow> j < Nj div 2 \<longrightarrow> i < Ni div 2 \<longrightarrow>
              data Gd [s, v, k, j, i] = downGas_val dV dVd G [s, v, k, j, i])"
proof -
  have s1: "shape dV = [Nk, Nj, Ni]"
    using Volume_shape[OF dV X] by simp
  have s2: "shape dVd = [Nk div 2, Nj div 2, Ni div 2]"
    using Volume_shape[OF dVd Xd] by simp
  obtain Gd where f: "for_each [0..<Ns] (\<lambda>s.
              for_each [0..<Nv] (\<lambda>v.
                for_each [0..<Nk div 2] (\<lambda>k.
                  for_each [0..<Nj div 2] (\<lambda>j.
                    for_each [0..<Ni div 2] (\<lambda>i. downGas_cell dV dVd G s v k j i)))))
              (zeros [Ns, Nv, Nk div 2, Nj div 2, Ni div 2]) = Some Gd"
    and p: "patched [Ns, Nv, Nk div 2, Nj div 2, Ni div 2]
             (\<lambda>x. \<exists>s\<in>set [0..<Ns]. \<exists>v\<in>set [0..<Nv]. \<exists>k\<in>set [0..<Nk div 2].
                     \<exists>j\<in>set [0..<Nj div 2]. \<exists>i\<in>set [0..<Ni div 2]. x = [s, v, k, j, i])
             (downGas_val dV dVd G) (zeros [Ns, Nv, Nk div 2, Nj div 2, Ni div 2]) Gd"
    using downGas_loops[OF G s1 s2] by blast
  have sh: "shape Gd = [Ns, Nv, Nk div 2, Nj div 2, Ni div 2]"
    and pd: "\<And>x. data Gd x =
       (if \<exists>s\<in>set [0..<Ns]. \<exists>v\<in>set [0..<Nv]. \<exists>k\<in>set [0..<Nk div 2].
                     \<exists>j\<in>set [0..<Nj div 2]. \<exists>i\<in>set [0..<Ni div 2]. x = [s, v, k, j, i]
        then downGas_val dV dVd G x else data (zeros [Ns, Nv, Nk div 2, Nj div 2, Ni div 2]) x)"
    using p unfolding patched_def by blast+
  have run: "downGas hvol X Y Z G Xd Yd Zd = Some Gd"
    by (simp only: downGas_def G list.case dV dVd f Option.bind.simps)
  have "data Gd [s, v, k, j, i] = downGas_val dV dVd G [s, v, k, j, i]"
    if "s < Ns" "v < Nv" "k < Nk div 2" "j < Nj div 2" "i < Ni div 2" for s v k j i
  proof -
    have "\<exists>s'\<in>set [0..<Ns]. \<exists>v'\<in>set [0..<Nv]. \<exists>k'\<in>set [0..<Nk div 2].
             \<exists>j'\<in>set [0..<Nj div 2]. \<exists>i'\<in>set [0..<Ni div 2]. [s, v, k, j, i] = [s', v', k', j', i']"
      using that
      by (intro bexI[of _ s] bexI[of _ v] bexI[of _ k] bexI[of _ j] bexI[of _ i]) simp_all
    then show ?thesis
      using pd by (simp only: if_True)
  qed
  then show ?thesis
    using run sh by blast
qed

subsection \<open>The example grids\<close>

lemma upt8: "[0..<8] = [0, 1, 2, 3, 4, 5, 6, 7::nat]"
  by code_simp

lemma ex_box_data:
  "data (ghostless (ex_X n h)) [k, j, i] = h * real i"
  "data (ghostless (ex_Y n h)) [k, j, i] = h * real j"
  "data (ghostless (ex_Z n h)) [k, j, i] = h * real k"
proof -
  have "shape (ex_X n h) = [n + 9, n + 9, n + 9]" "shape (ex_Y n h) = [n + 9, n + 9, n + 9]"
    "shape (ex_Z n h) = [n + 9, n + 9, n + 9]"
    by (simp_all add: ex_X_def ex_Y_def ex_Z_def)
  then show "data (ghostless (ex_X n h)) [k, j, i] = h * real i"
    "data (ghostless (ex_Y n h)) [k, j, i] = h * real j"
    "data (ghostless (ex_Z n h)) [k, j, i] = h * real k"
    by (simp_all add: ghostless_props(3) ex_X_def ex_Y_def ex_Z_def)
qed

lemma ex_extent:
  assumes "0 < h"
  shows "extent (cell_pts (ghostless (ex_X n h)) (ghostless (ex_Y n h)) (ghostless (ex_Z n h)) 0 j i) 0 = h"
    and "extent (cell_pts (ghostless (ex_X n h)) (ghostless (ex_Y n h)) (ghostless (ex_Z n h)) 0 j i) 1 = h"
    and "extent (cell_pts (ghostless (ex_X n h)) (ghostless (ex_Y n h)) (ghostless (ex_Z n h)) 0 j i) 2 = h"
  using assms
  by (simp_all add: extent_def upt8 cell_pts_def ex_box_data max_def min_def algebra_simps)

lemma ex_hvol_box:
  assumes "0 < h"
  shows "ex_hvol (cell_pts (ghostless (ex_X n h)) (ghostless (ex_Y n h)) (ghostless (ex_Z n h)) 0 j i)
           = Some (h * h * h)"
  unfolding ex_hvol_def ex_extent[OF assms] Let_def using assms by simp

lemma ex_Volume:
  assumes "0 < h" "1 \<le> n"
  shows "\<exists>dV. Volume ex_hvol (ex_X n h) (ex_Y n h) (ex_Z n h) = Some dV \<and> shape dV = [n, n, n] \<and>
           (\<forall>k<n. \<forall>j<n. \<forall>i<n. data dV [k, j, i] = h * h * h)"
proof -
  have s: "shape (ex_X n h) = [n + 9, n + 9, n + 9]" "shape (ex_Y n h) = [n + 9, n + 9, n + 9]"
    "shape (ex_Z n h) = [n + 9, n + 9, n + 9]"
    by (simp_all add: ex_X_def ex_Y_def ex_Z_def)
  have "\<forall>j<n. \<forall>i<n. ex_hvol (cell_pts (ghostless (ex_X n h)) (ghostless (ex_Y n h))
            (ghostless (ex_Z n h)) 0 j i) \<noteq> None"
    using ex_hvol_box[OF assms(1)] by simp
  from Volume_run[OF s assms(2) this] show ?thesis
    using ex_hvol_box[OF assms(1)] by simp
qed

lemma ex_Volume1:
  "\<exists>dV. Volume ex_hvol (ex_X 1 2) (ex_Y 1 2) (ex_Z 1 2) = Some dV \<and> shape dV = [1, 1, 1] \<and>
     data dV [0, 0, 0] = 8"
  using ex_Volume[of 2 1] by simp

lemma ex_Volume2:
  "\<exists>dV. Volume ex_hvol (ex_X 2 1) (ex_Y 2 1) (ex_Z 2 1) = Some dV \<and> shape dV = [2, 2, 2] \<and>
     (\<forall>a<2. \<forall>b<2. \<forall>c<2. data dV [a, b, c] = 1)"
  using ex_Volume[of 1 2] by simp

lemma shares_sum:
  fixes q :: real
  assumes "S = a + b + c + d + e + f + g + h" "S \<noteq> 0"
  shows "q * (a / S) + q * (b / S) + q * (c / S) + q * (d / S) +
         q * (e / S) + q * (f / S) + q * (g / S) + q * (h / S) = q"
proof -
  have "q * (a / S) + q * (b / S) + q * (c / S) + q * (d / S) +
         q * (e / S) + q * (f / S) + q * (g / S) + q * (h / S) = q * (S / S)"
    unfolding assms(1) by (simp only: distrib_left add_divide_distrib)
  then show ?thesis using assms(2) by simp
qed

lemma upGas_block_amount:
  assumes val: "\<And>a b c. a < 2 \<Longrightarrow> b < 2 \<Longrightarrow> c < 2 \<Longrightarrow>
      data Gu [s, v, 2*k + a, 2*j + b, 2*i + c] = upGas_val dV dVu G [s, v, 2*k + a, 2*j + b, 2*i + c]"
    and posu: "\<forall>a<2. \<forall>b<2. \<forall>c<2. 0 < data dVu [2*k + a, 2*j + b, 2*i + c]"
  shows "blk_sum (\<lambda>c. data Gu (s # v # c) * data dVu c) k j i
           = data G [s, v, k, j, i] * data dV [k, j, i]"
proof -
  define u where "u a b c = data dVu [2*k + a, 2*j + b, 2*i + c]" for a b c
  define S where "S = blk_sum (data dVu) k j i"
  define q where "q = data G [s, v, k, j, i] * data dV [k, j, i]"
  have pos: "0 < u a b c" if "a < 2" "b < 2" "c < 2" for a b c
    using posu that by (simp add: u_def)
  have S: "S = u 0 0 0 + u 0 0 1 + u 0 1 0 + u 0 1 1 + u 1 0 0 + u 1 0 1 + u 1 1 0 + u 1 1 1"
    by (simp add: S_def blk_sum_def u_def)
  have Spos: "0 < S"
    unfolding S using pos[of 0 0 0] pos[of 0 0 1] pos[of 0 1 0] pos[of 0 1 1]
      pos[of 1 0 0] pos[of 1 0 1] pos[of 1 1 0] pos[of 1 1 1] by simp
  have cell: "data Gu [s, v, 2*k + a, 2*j + b, 2*i + c] * u a b c = q * (u a b c / S)"
    if "a < 2" "b < 2" "c < 2" for a b c
  proof -
    have d: "(2*k + a) div 2 = k" "(2*j + b) div 2 = j" "(2*i + c) div 2 = i"
      using that by auto
    have "data Gu [s, v, 2*k + a, 2*j + b, 2*i + c] = q * (u a b c / S) / u a b c"
      using val[OF that] by (simp add: upGas_val_def d u_def S_def q_def)
    then show ?thesis
      using pos[OF that] by simp
  qed
  have "blk_sum (\<lambda>c. data Gu (s # v # c) * data dVu c) k j i =
      q * (u 0 0 0 / S) + q * (u 0 0 1 / S) + q * (u 0 1 0 / S) + q * (u 0 1 1 / S) +
      q * (u 1 0 0 / S) + q * (u 1 0 1 / S) + q * (u 1 1 0 / S) + q * (u 1 1 1 / S)"
    using cell[of 0 0 0] cell[of 0 0 1] cell[of 0 1 0] cell[of 0 1 1]
      cell[of 1 0 0] cell[of 1 0 1] cell[of 1 1 0] cell[of 1 1 1]
    by (simp add: blk_sum_def u_def)
  also have "\<dots> = q"
    using shares_sum[OF S] Spos by simp
  finally show ?thesis
    by (simp add: q_def)
qed

section \<open>The reader: facts\<close>

lemma ex_GetVar_seq:
  "elem_of [0, 0, 0] (GetVar ex_h5 [0] ex_pipe ''D'' (Some 0) vScl True) = Some 1"
  by (simp add: GetVar_def ex_pipe_def ex_h5_def product3_def place_tile_def zeros_def
      setitem_def bdims_def elem_of_def elem_def inb_def Let_def)

lemma ex_GetVar_mpi_seq:
  "elem_of [0, 0, 0] (GetVar ex_h5 [0] ex_pipe_mpi ''D'' (Some 0) vScl True) = Some 1"
  by (simp add: GetVar_def ex_pipe_mpi_def ex_pipe_def ex_h5_def product3_def place_tile_def
      zeros_def setitem_def bdims_def elem_of_def elem_def inb_def Let_def)

lemma ex_GetVarParallel:
  "elem_of [0, 0, 0] (GetVarParallel ex_h5 [0] ex_pipe_mpi ''D'' (Some 0) (Some 2) True) = Some 2"
  by (simp add: GetVarParallel_def ex_pipe_mpi_def ex_pipe_def ex_h5_def product3_def
      place_tile_def zeros_def setitem_def bdims_def elem_of_def elem_def inb_def Let_def
      PullVarLoc_def as_completed_def np_binop_def scalar_def bshape_def bidx_def)

subsection \<open>The shape of the assembled array\<close>

lemma place_tile_shape:
  assumes "place_tile self dataset loc V = Some V'"
  shows "shape V' = shape V"
proof -
  obtain i j k where loc: "loc = (i, j, k)" by (cases loc)
  from assms show ?thesis
    unfolding place_tile_def loc prod.case Let_def
    by (auto dest: setitem_shape split: if_splits)
qed

lemma np_binop_scalar_shape:
  assumes "np_binop f (scalar c) A = Some R"
  shows "shape R = shape A"
  using assms by (auto simp: np_binop_def scalar_def)

lemma GetVarParallel_shape:
  assumes "GetVarParallel h5 order self vID sID vScl doVerb = Some V"
  shows "shape V = (if self_is2D self then [self_Ni self, self_Nj self]
                    else [self_Ni self, self_Nj self, self_Nk self])"
proof -
  let ?V0 = "if self_is2D self then zeros [self_Ni self, self_Nj self]
             else (zeros [self_Ni self, self_Nj self, self_Nk self] :: real ndarray)"
  from assms obtain datasets V' where
    f: "for_each datasets (\<lambda>(dataset, loc). place_tile self dataset loc) ?V0 = Some V'"
    and r: "(case vScl of None \<Rightarrow> Some V' | Some c \<Rightarrow> np_binop (*) (scalar c) V') = Some V"
    unfolding GetVarParallel_def Let_def by (elim bindE)
  have "shape V' = shape ?V0"
    by (rule for_each_pres[where f = shape, OF _ f]) (auto dest: place_tile_shape)
  moreover have "shape V = shape V'"
    using r by (cases vScl) (auto dest: np_binop_scalar_shape)
  ultimately show ?thesis
    by (simp add: zeros_def)
qed

lemma GetVar_shape:
  assumes "GetVar h5 order self vID sID vScl doVerb = Some V"
  shows "shape V = (if self_is2D self then [self_Ni self, self_Nj self]
                    else [self_Ni self, self_Nj self, self_Nk self])"
proof (cases "self_isMPI self \<and> self_doParallel self")
  case True
  then have "GetVarParallel h5 order self vID sID vScl doVerb = Some V"
    using assms by (simp add: GetVar_def Let_def)
  then show ?thesis by (rule GetVarParallel_shape)
next
  case False
  let ?V0 = "if self_is2D self then zeros [self_Ni self, self_Nj self]
             else (zeros [self_Ni self, self_Nj self, self_Nk self] :: real ndarray)"
  let ?body = "\<lambda>(i, j, k) V.
                   (let fIn = (if self_isMPI self
                               then self_fdir self @ ''/'' @
                                    genName h5 (self_ftag self) i j k
                                      (self_Ri self) (self_Rj self) (self_Rk self)
                               else self_fdir self @ ''/'' @ self_ftag self @ ''.h5'')
                    in do {
                      dataset \<leftarrow> PullVar h5 fIn vID sID;
                      place_tile self dataset (i, j, k) V
                    })"
  have f: "for_each (product3 (self_Ri self) (self_Rj self) (self_Rk self)) ?body ?V0 = Some V"
    using assms False unfolding GetVar_def Let_def by (simp only: if_False)
  have "shape V = shape ?V0"
  proof (rule for_each_pres[where f = shape, OF _ f])
    fix c and s s' :: "real ndarray"
    assume b: "?body c s = Some s'"
    obtain i j k where c: "c = (i, j, k)" by (cases c) auto
    from b show "shape s' = shape s"
      unfolding c prod.case Let_def
      by (elim bindE) (rule place_tile_shape)
  qed
  then show ?thesis
    by (simp add: zeros_def)
qed

subsection \<open>Slices\<close>

lemma getitem_slab:
  assumes "shape V = [a, b, c]" "1 \<le> n" "n \<le> int a"
  shows "\<exists>Vs. getitem V [Ix (n - 1), All, All] = Some Vs \<and> shape Vs = [b, c] \<and>
           (\<forall>j k. data Vs [j, k] = data V [nat (n - 1), j, k])"
  using assms by (simp add: getitem_def index_def)

lemma ustr_dirs:
  "ustr ''IDIR'' = [73, 68, 73, 82]" "ustr ''JDIR'' = [74, 68, 73, 82]"
  "ustr ''KDIR'' = [75, 68, 73, 82]"
  by (simp_all add: ustr_def)

lemma ex_upper_dirs:
  "ex_upper (ustr ''xdir'') = [88, 68, 73, 82]"
  "ex_upper (ustr ''idir'') = ustr ''IDIR''"
  "ex_upper (ustr ''IDIR'') = ustr ''IDIR''"
  "ex_upper [305, 100, 305, 114] = ustr ''IDIR''"
  by (simp_all add: ex_upper_def ex_upper_cp_def ustr_def)

lemma ex_GetVar_value:
  "\<exists>V. GetVar ex_h5 [0] ex_pipe ''D'' (Some 0) None False = Some V \<and> data V [0, 0, 0] = 1"
  by (simp add: GetVar_def ex_pipe_def ex_h5_def product3_def place_tile_def zeros_def
      setitem_def bdims_def inb_def Let_def)

section \<open>Auxiliary fields: facts\<close>

lemma in_vblk4_length: "in_vblk4 d i k j x \<Longrightarrow> length x = 4"
  by (auto simp: in_vblk4_def split: list.splits)

lemma in_vblk5_length: "in_vblk5 h d i k j x \<Longrightarrow> length x = 5"
  by (auto simp: in_vblk5_def split: list.splits)

lemma locate_vblk4:
  assumes "d < n1" "2*k + 2 \<le> n2" "2*j + 2 \<le> n3" "i < n4"
  shows "(locate [n1,n2,n3,n4] [Ixn d, Sln (2*k) (2*k + 2), Sln (2*j) (2*j + 2), Ixn i] x = None)
           = (\<not> in_vblk4 d i k j x)"
proof (cases "length x = 4")
  case False
  then show ?thesis using in_vblk4_length by (auto simp: locate_wrong_length)
next
  case True
  then obtain x1 x2 x3 x4 where x: "x = [x1,x2,x3,x4]"
    using len4 by blast
  have m: "min (2*k) n2 = 2*k" "min (2*k + 2) n2 = 2*k + 2"
      "min (2*j) n3 = 2*j" "min (2*j + 2) n3 = 2*j + 2"
    using assms by simp_all
  show ?thesis
    unfolding x in_vblk4_def list.case div2_eq_iff
    using assms(1,4) by (simp only: locate.simps axis_Sln axis_Ixn m) (auto simp: inb_def)
qed

lemma locate_vblk5:
  assumes "d < n1" "2*k + 2 \<le> n2" "2*j + 2 \<le> n3" "i < n4" "h < n5"
  shows "(locate [n1,n2,n3,n4,n5] [Ixn d, Sln (2*k) (2*k + 2), Sln (2*j) (2*j + 2), Ixn i, Ixn h] x
            = None) = (\<not> in_vblk5 h d i k j x)"
proof (cases "length x = 5")
  case False
  then show ?thesis using in_vblk5_length by (auto simp: locate_wrong_length)
next
  case True
  then obtain x1 x2 x3 x4 x5 where x: "x = [x1,x2,x3,x4,x5]"
    using len5 by blast
  have m: "min (2*k) n2 = 2*k" "min (2*k + 2) n2 = 2*k + 2"
      "min (2*j) n3 = 2*j" "min (2*j + 2) n3 = 2*j + 2"
    using assms by simp_all
  show ?thesis
    unfolding x in_vblk5_def list.case div2_eq_iff
    using assms(1,4,5) by (simp only: locate.simps axis_Sln axis_Ixn m) (auto simp: inb_def)
qed

lemma upVolt4_cell_patched:
  assumes G: "shape G = [Nd, Nk, Nj, Ni]" and Gu: "shape Gu = [Nd, 2*Nk, 2*Nj, Ni]"
    and b: "d < Nd" "i < Ni" "k < Nk" "j < Nj"
  shows "\<exists>Gu'. upVolt4_cell G d i k j Gu = Some Gu' \<and>
           patched [Nd, 2*Nk, 2*Nj, Ni] (in_vblk4 d i k j) (upVolt4_val G) Gu Gu'"
proof -
  have e: "elem G [d, k, j, i] = Some (data G [d, k, j, i])"
    using G b by (simp add: elem_def inb_def)
  have ok: "ix_ok (shape Gu) [Ixn d, Sln (2*k) (2*k + 2), Sln (2*j) (2*j + 2), Ixn i]"
    using Gu b by simp
  obtain Gu' where S:
      "setitem Gu [Ixn d, Sln (2*k) (2*k + 2), Sln (2*j) (2*j + 2), Ixn i] (scalar (data G [d, k, j, i]))
         = Some Gu'"
      "shape Gu' = shape Gu"
      "\<And>x. data Gu' x =
         (if locate (shape Gu) [Ixn d, Sln (2*k) (2*k + 2), Sln (2*j) (2*j + 2), Ixn i] x = None
          then data Gu x else data G [d, k, j, i])"
    using setitem_scalar[OF ok] by blast
  have run: "upVolt4_cell G d i k j Gu = Some Gu'"
    by (simp only: upVolt4_cell_def e S(1) Let_def Option.bind.simps)
  have r: "2*k + 2 \<le> 2*Nk" "2*j + 2 \<le> 2*Nj"
    using b by simp_all
  have loc: "(locate (shape Gu) [Ixn d, Sln (2*k) (2*k + 2), Sln (2*j) (2*j + 2), Ixn i] x = None)
      = (\<not> in_vblk4 d i k j x)" for x
    unfolding Gu by (rule locate_vblk4[OF b(1) r b(2)])
  have w: "data Gu' x = (if \<not> in_vblk4 d i k j x then data Gu x else data G [d, k, j, i])" for x
    by (simp only: S(3) loc)
  have "data Gu' x = (if in_vblk4 d i k j x then upVolt4_val G x else data Gu x)" for x
  proof (cases "in_vblk4 d i k j x")
    case False
    then show ?thesis
      using w[of x] by simp
  next
    case True
    then have "upVolt4_val G x = data G [d, k, j, i]"
      by (auto simp: in_vblk4_def upVolt4_val_def split: list.splits)
    then show ?thesis
      using w[of x] True by simp
  qed
  then show ?thesis
    using run S(2) Gu by (simp add: patched_def)
qed

lemma upVolt5_cell_patched:
  assumes G: "shape G = [Nd, Nk, Nj, Ni, Nh]" and Gu: "shape Gu = [Nd, 2*Nk, 2*Nj, Ni, Nh]"
    and b: "h < Nh" "d < Nd" "i < Ni" "k < Nk" "j < Nj"
  shows "\<exists>Gu'. upVolt5_cell G h d i k j Gu = Some Gu' \<and>
           patched [Nd, 2*Nk, 2*Nj, Ni, Nh] (in_vblk5 h d i k j) (upVolt5_val G) Gu Gu'"
proof -
  have e: "elem G [d, k, j, i, h] = Some (data G [d, k, j, i, h])"
    using G b by (simp add: elem_def inb_def)
  have ok: "ix_ok (shape Gu) [Ixn d, Sln (2*k) (2*k + 2), Sln (2*j) (2*j + 2), Ixn i, Ixn h]"
    using Gu b by simp
  obtain Gu' where S:
      "setitem Gu [Ixn d, Sln (2*k) (2*k + 2), Sln (2*j) (2*j + 2), Ixn i, Ixn h]
         (scalar (data G [d, k, j, i, h])) = Some Gu'"
      "shape Gu' = shape Gu"
      "\<And>x. data Gu' x =
         (if locate (shape Gu) [Ixn d, Sln (2*k) (2*k + 2), Sln (2*j) (2*j + 2), Ixn i, Ixn h] x = None
          then data Gu x else data G [d, k, j, i, h])"
    using setitem_scalar[OF ok] by blast
  have run: "upVolt5_cell G h d i k j Gu = Some Gu'"
    by (simp only: upVolt5_cell_def e S(1) Let_def Option.bind.simps)
  have r: "2*k + 2 \<le> 2*Nk" "2*j + 2 \<le> 2*Nj"
    using b by simp_all
  have loc: "(locate (shape Gu) [Ixn d, Sln (2*k) (2*k + 2), Sln (2*j) (2*j + 2), Ixn i, Ixn h] x
      = None) = (\<not> in_vblk5 h d i k j x)" for x
    unfolding Gu by (rule locate_vblk5[OF b(2) r b(3) b(1)])
  have w: "data Gu' x = (if \<not> in_vblk5 h d i k j x then data Gu x else data G [d, k, j, i, h])" for x
    by (simp only: S(3) loc)
  have "data Gu' x = (if in_vblk5 h d i k j x then upVolt5_val G x else data Gu x)" for x
  proof (cases "in_vblk5 h d i k j x")
    case False
    then show ?thesis
      using w[of x] by simp
  next
    case True
    then have "upVolt5_val G x = data G [d, k, j, i, h]"
      by (auto simp: in_vblk5_def upVolt5_val_def split: list.splits)
    then show ?thesis
      using w[of x] True by simp
  qed
  then show ?thesis
    using run S(2) Gu by (simp add: patched_def)
qed


lemma indices_22: "indices [2,2] = [[0,0],[0,1],[1,0],[1,1]]"
  by (simp add: upt_rec)

lemma np_mean_22:
  assumes "shape A = [2,2]"
  shows "np_mean A = (data A [0,0] + data A [0,1] + data A [1,0] + data A [1,1]) / 4"
proof -
  have "np_sum A = sum_list (map (data A) (indices [2,2]))"
    using assms by (simp only: np_sum_def)
  then have "np_sum A = data A [0,0] + data A [0,1] + data A [1,0] + data A [1,1]"
    by (simp only: indices_22) simp
  then show ?thesis
    using assms by (simp add: np_mean_def)
qed

lemma getitem_vblk4:
  assumes "shape A = [n1,n2,n3,n4]" "d < n1" "a + 2 \<le> n2" "b + 2 \<le> n3" "i < n4"
  shows "\<exists>B. getitem A [Ixn d, Sln a (a+2), Sln b (b+2), Ixn i] = Some B \<and> shape B = [2,2] \<and>
             (\<forall>x y. data B [x,y] = data A [d, a+x, b+y, i])"
  using assms by (simp add: getitem_def min_absorb1 min_absorb2)

lemma downVolt_cell_patched:
  assumes G: "shape G = [Nd, Nk, Nj, Ni]" and Gu: "shape Gu = [Nd, Nk div 2, Nj div 2, Ni]"
    and b: "d < Nd" "i < Ni" "k < Nk div 2" "j < Nj div 2"
  shows "\<exists>Gu'. downVolt_cell G d i k j Gu = Some Gu' \<and>
           patched [Nd, Nk div 2, Nj div 2, Ni] (\<lambda>x. x = [d, k, j, i]) (downVolt_val G) Gu Gu'"
proof -
  have r: "2*k + 2 \<le> Nk" "2*j + 2 \<le> Nj"
    using b by auto
  obtain B where B: "getitem G [Ixn d, Sln (2*k) (2*k + 2), Sln (2*j) (2*j + 2), Ixn i] = Some B"
      "shape B = [2,2]" "\<And>x y. data B [x,y] = data G [d, 2*k + x, 2*j + y, i]"
    using getitem_vblk4[OF G b(1) r b(2)] by auto
  have ok: "ix_ok (shape Gu) [Ixn d, Ixn k, Ixn j, Ixn i]"
    using Gu b by simp
  obtain Gu' where S:
      "setitem Gu [Ixn d, Ixn k, Ixn j, Ixn i] (scalar (np_mean B)) = Some Gu'"
      "shape Gu' = shape Gu"
      "\<And>x. data Gu' x =
         (if locate (shape Gu) [Ixn d, Ixn k, Ixn j, Ixn i] x = None then data Gu x
          else np_mean B)"
    using setitem_scalar[OF ok] by blast
  have run: "downVolt_cell G d i k j Gu = Some Gu'"
    by (simp only: downVolt_cell_def B(1) S(1) Let_def Option.bind.simps)
  have v: "np_mean B = downVolt_val G [d, k, j, i]"
    by (simp add: np_mean_22[OF B(2)] B(3) downVolt_val_def)
  have loc: "(locate (shape Gu) [Ixn d, Ixn k, Ixn j, Ixn i] x = None) = (x \<noteq> [d, k, j, i])" for x
    unfolding Gu by (rule locate_pt4[OF b(1,3,4,2)])
  have "data Gu' x = (if x = [d, k, j, i] then downVolt_val G x else data Gu x)" for x
    using S(3)[of x] by (simp add: loc v)
  then show ?thesis
    using run S(2) Gu by (simp add: patched_def)
qed

lemma upVolt4_run:
  assumes G: "shape G = [Nd, Nk, Nj, Ni]"
  shows "\<exists>Gu. upVolt4 G = Some Gu \<and> shape Gu = [Nd, 2*Nk, 2*Nj, Ni] \<and>
           (\<forall>d kf jf i. d < Nd \<longrightarrow> kf < 2*Nk \<longrightarrow> jf < 2*Nj \<longrightarrow> i < Ni \<longrightarrow>
              data Gu [d, kf, jf, i] = data G [d, kf div 2, jf div 2, i])"
proof -
  have z: "shape (zeros [Nd, 2*Nk, 2*Nj, Ni] :: real ndarray) = [Nd, 2*Nk, 2*Nj, Ni]"
    by (simp add: zeros_def)
  have "\<exists>Gu. for_each [0..<Nd] (\<lambda>d.
            for_each [0..<Ni] (\<lambda>i.
              for_each [0..<Nk] (\<lambda>k.
                for_each [0..<Nj] (\<lambda>j. upVolt4_cell G d i k j))))
            (zeros [Nd, 2 * Nk, 2 * Nj, Ni]) = Some Gu \<and>
      patched [Nd, 2*Nk, 2*Nj, Ni]
        (\<lambda>x. \<exists>d\<in>set [0..<Nd]. \<exists>i\<in>set [0..<Ni]. \<exists>k\<in>set [0..<Nk]. \<exists>j\<in>set [0..<Nj].
               in_vblk4 d i k j x)
        (upVolt4_val G) (zeros [Nd, 2 * Nk, 2 * Nj, Ni]) Gu"
  proof (rule for_each4_patched[OF _ z])
    fix d i k j and A :: "real ndarray"
    assume "d \<in> set [0..<Nd]" "i \<in> set [0..<Ni]" "k \<in> set [0..<Nk]" "j \<in> set [0..<Nj]" "shape A = [Nd, 2*Nk, 2*Nj, Ni]"
    then show "\<exists>A'. upVolt4_cell G d i k j A = Some A' \<and>
        patched [Nd, 2*Nk, 2*Nj, Ni] (in_vblk4 d i k j) (upVolt4_val G) A A'"
      using upVolt4_cell_patched[OF G] by simp
  qed
  then obtain Gu where f: "for_each [0..<Nd] (\<lambda>d.
            for_each [0..<Ni] (\<lambda>i.
              for_each [0..<Nk] (\<lambda>k.
                for_each [0..<Nj] (\<lambda>j. upVolt4_cell G d i k j))))
            (zeros [Nd, 2 * Nk, 2 * Nj, Ni]) = Some Gu"
    and p: "patched [Nd, 2*Nk, 2*Nj, Ni]
        (\<lambda>x. \<exists>d\<in>set [0..<Nd]. \<exists>i\<in>set [0..<Ni]. \<exists>k\<in>set [0..<Nk]. \<exists>j\<in>set [0..<Nj].
               in_vblk4 d i k j x)
        (upVolt4_val G) (zeros [Nd, 2 * Nk, 2 * Nj, Ni]) Gu"
    by blast
  have sh: "shape Gu = [Nd, 2*Nk, 2*Nj, Ni]"
    and pd: "\<And>x. data Gu x =
       (if \<exists>d\<in>set [0..<Nd]. \<exists>i\<in>set [0..<Ni]. \<exists>k\<in>set [0..<Nk]. \<exists>j\<in>set [0..<Nj].
               in_vblk4 d i k j x
        then upVolt4_val G x else data (zeros [Nd, 2 * Nk, 2 * Nj, Ni]) x)"
    using p unfolding patched_def by blast+
  have run: "upVolt4 G = Some Gu"
    by (simp only: upVolt4_def G list.case f)
  have "data Gu [d, kf, jf, i] = data G [d, kf div 2, jf div 2, i]"
    if "d < Nd" "kf < 2*Nk" "jf < 2*Nj" "i < Ni" for d kf jf i
  proof -
    have "kf div 2 < Nk" "jf div 2 < Nj"
      using that by auto
    then have "\<exists>d'\<in>set [0..<Nd]. \<exists>i'\<in>set [0..<Ni]. \<exists>k\<in>set [0..<Nk]. \<exists>j\<in>set [0..<Nj].
               in_vblk4 d' i' k j [d, kf, jf, i]"
      using that
      by (intro bexI[of _ d] bexI[of _ i] bexI[of _ "kf div 2"] bexI[of _ "jf div 2"])
         (simp_all add: in_vblk4_def)
    then have "data Gu [d, kf, jf, i] = upVolt4_val G [d, kf, jf, i]"
      using pd by (simp only: if_True)
    then show ?thesis by (simp add: upVolt4_val_def)
  qed
  then show ?thesis
    using run sh by blast
qed

lemma upVolt5_run:
  assumes G: "shape G = [Nd, Nk, Nj, Ni, Nh]"
  shows "\<exists>Gu. upVolt5 G = Some Gu \<and> shape Gu = [Nd, 2*Nk, 2*Nj, Ni, Nh] \<and>
           (\<forall>d kf jf i h. d < Nd \<longrightarrow> kf < 2*Nk \<longrightarrow> jf < 2*Nj \<longrightarrow> i < Ni \<longrightarrow> h < Nh \<longrightarrow>
              data Gu [d, kf, jf, i, h] = data G [d, kf div 2, jf div 2, i, h])"
proof -
  have z: "shape (zeros [Nd, 2*Nk, 2*Nj, Ni, Nh] :: real ndarray) = [Nd, 2*Nk, 2*Nj, Ni, Nh]"
    by (simp add: zeros_def)
  have "\<exists>Gu. for_each [0..<Nh] (\<lambda>h.
            for_each [0..<Nd] (\<lambda>d.
              for_each [0..<Ni] (\<lambda>i.
                for_each [0..<Nk] (\<lambda>k.
                  for_each [0..<Nj] (\<lambda>j. upVolt5_cell G h d i k j)))))
            (zeros [Nd, 2 * Nk, 2 * Nj, Ni, Nh]) = Some Gu \<and>
      patched [Nd, 2*Nk, 2*Nj, Ni, Nh]
        (\<lambda>x. \<exists>h\<in>set [0..<Nh]. \<exists>d\<in>set [0..<Nd]. \<exists>i\<in>set [0..<Ni]. \<exists>k\<in>set [0..<Nk].
               \<exists>j\<in>set [0..<Nj]. in_vblk5 h d i k j x)
        (upVolt5_val G) (zeros [Nd, 2 * Nk, 2 * Nj, Ni, Nh]) Gu"
  proof (rule for_each5_patched[OF _ z])
    fix h d i k j and A :: "real ndarray"
    assume "h \<in> set [0..<Nh]" "d \<in> set [0..<Nd]" "i \<in> set [0..<Ni]" "k \<in> set [0..<Nk]" "j \<in> set [0..<Nj]" "shape A = [Nd, 2*Nk, 2*Nj, Ni, Nh]"
    then show "\<exists>A'. upVolt5_cell G h d i k j A = Some A' \<and>
        patched [Nd, 2*Nk, 2*Nj, Ni, Nh] (in_vblk5 h d i k j) (upVolt5_val G) A A'"
      using upVolt5_cell_patched[OF G] by simp
  qed
  then obtain Gu where f: "for_each [0..<Nh] (\<lambda>h.
            for_each [0..<Nd] (\<lambda>d.
              for_each [0..<Ni] (\<lambda>i.
                for_each [0..<Nk] (\<lambda>k.
                  for_each [0..<Nj] (\<lambda>j. upVolt5_cell G h d i k j)))))
            (zeros [Nd, 2 * Nk, 2 * Nj, Ni, Nh]) = Some Gu"
    and p: "patched [Nd, 2*Nk, 2*Nj, Ni, Nh]
        (\<lambda>x. \<exists>h\<in>set [0..<Nh]. \<exists>d\<in>set [0..<Nd]. \<exists>i\<in>set [0..<Ni]. \<exists>k\<in>set [0..<Nk].
               \<exists>j\<in>set [0..<Nj]. in_vblk5 h d i k j x)
        (upVolt5_val G) (zeros [Nd, 2 * Nk, 2 * Nj, Ni, Nh]) Gu"
    by blast
  have sh: "shape Gu = [Nd, 2*Nk, 2*Nj, Ni, Nh]"
    and pd: "\<And>x. data Gu x =
       (if \<exists>h\<in>set [0..<Nh]. \<exists>d\<in>set [0..<Nd]. \<exists>i\<in>set [0..<Ni]. \<exists>k\<in>set [0..<Nk].
               \<exists>j\<in>set [0..<Nj]. in_vblk5 h d i k j x
        then upVolt5_val G x else data (zeros [Nd, 2 * Nk, 2 * Nj, Ni, Nh]) x)"
    using p unfolding patched_def by blast+
  have run: "upVolt5 G = Some Gu"
    by (simp only: upVolt5_def G list.case f)
  have "data Gu [d, kf, jf, i, h] = data G [d, kf div 2, jf div 2, i, h]"
    if "d < Nd" "kf < 2*Nk" "jf < 2*Nj" "i < Ni" "h < Nh" for d kf jf i h
  proof -
    have "kf div 2 < Nk" "jf div 2 < Nj"
      using that by auto
    then have "\<exists>h'\<in>set [0..<Nh]. \<exists>d'\<in>set [0..<Nd]. \<exists>i'\<in>set [0..<Ni]. \<exists>k\<in>set [0..<Nk].
               \<exists>j\<in>set [0..<Nj]. in_vblk5 h' d' i' k j [d, kf, jf, i, h]"
      using that
      by (intro bexI[of _ h] bexI[of _ d] bexI[of _ i] bexI[of _ "kf div 2"] bexI[of _ "jf div 2"])
         (simp_all add: in_vblk5_def)
    then have "data Gu [d, kf, jf, i, h] = upVolt5_val G [d, kf, jf, i, h]"
      using pd by (simp only: if_True)
    then show ?thesis by (simp add: upVolt5_val_def)
  qed
  then show ?thesis
    using run sh by blast
qed

lemma downVolt_run:
  assumes G: "shape G = [Nd, Nk, Nj, Ni]"
  shows "\<exists>Gd. downVolt G = Some Gd \<and> shape Gd = [Nd, Nk div 2, Nj div 2, Ni] \<and>
           (\<forall>d k j i. d < Nd \<longrightarrow> k < Nk div 2 \<longrightarrow> j < Nj div 2 \<longrightarrow> i < Ni \<longrightarrow>
              data Gd [d, k, j, i] = downVolt_val G [d, k, j, i])"
proof -
  have z: "shape (zeros [Nd, Nk div 2, Nj div 2, Ni] :: real ndarray) = [Nd, Nk div 2, Nj div 2, Ni]"
    by (simp add: zeros_def)
  have "\<exists>Gd. for_each [0..<Nd] (\<lambda>d.
            for_each [0..<Ni] (\<lambda>i.
              for_each [0..<Nk div 2] (\<lambda>k.
                for_each [0..<Nj div 2] (\<lambda>j. downVolt_cell G d i k j))))
            (zeros [Nd, Nk div 2, Nj div 2, Ni]) = Some Gd \<and>
      patched [Nd, Nk div 2, Nj div 2, Ni]
        (\<lambda>x. \<exists>d\<in>set [0..<Nd]. \<exists>i\<in>set [0..<Ni]. \<exists>k\<in>set [0..<Nk div 2]. \<exists>j\<in>set [0..<Nj div 2].
               x = [d, k, j, i])
        (downVolt_val G) (zeros [Nd, Nk div 2, Nj div 2, Ni]) Gd"
  proof (rule for_each4_patched[OF _ z])
    fix d i k j and A :: "real ndarray"
    assume "d \<in> set [0..<Nd]" "i \<in> set [0..<Ni]" "k \<in> set [0..<Nk div 2]" "j \<in> set [0..<Nj div 2]" "shape A = [Nd, Nk div 2, Nj div 2, Ni]"
    then show "\<exists>A'. downVolt_cell G d i k j A = Some A' \<and>
        patched [Nd, Nk div 2, Nj div 2, Ni] (\<lambda>x. x = [d, k, j, i]) (downVolt_val G) A A'"
      using downVolt_cell_patched[OF G] by simp
  qed
  then obtain Gd where f: "for_each [0..<Nd] (\<lambda>d.
            for_each [0..<Ni] (\<lambda>i.
              for_each [0..<Nk div 2] (\<lambda>k.
                for_each [0..<Nj div 2] (\<lambda>j. downVolt_cell G d i k j))))
            (zeros [Nd, Nk div 2, Nj div 2, Ni]) = Some Gd"
    and p: "patched [Nd, Nk div 2, Nj div 2, Ni]
        (\<lambda>x. \<exists>d\<in>set [0..<Nd]. \<exists>i\<in>set [0..<Ni]. \<exists>k\<in>set [0..<Nk div 2]. \<exists>j\<in>set [0..<Nj div 2].
               x = [d, k, j, i])
        (downVolt_val G) (zeros [Nd, Nk div 2, Nj div 2, Ni]) Gd"
    by blast
  have sh: "shape Gd = [Nd, Nk div 2, Nj div 2, Ni]"
    and pd: "\<And>x. data Gd x =
       (if \<exists>d\<in>set [0..<Nd]. \<exists>i\<in>set [0..<Ni]. \<exists>k\<in>set [0..<Nk div 2]. \<exists>j\<in>set [0..<Nj div 2].
               x = [d, k, j, i]
        then downVolt_val G x else data (zeros [Nd, Nk div 2, Nj div 2, Ni]) x)"
    using p unfolding patched_def by blast+
  have run: "downVolt G = Some Gd"
    by (simp only: downVolt_def G list.case f)
  have "data Gd [d, k, j, i] = downVolt_val G [d, k, j, i]"
    if "d < Nd" "k < Nk div 2" "j < Nj div 2" "i < Ni" for d k j i
  proof -
    have "\<exists>d'\<in>set [0..<Nd]. \<exists>i'\<in>set [0..<Ni]. \<exists>k'\<in>set [0..<Nk div 2]. \<exists>j'\<in>set [0..<Nj div 2].
               [d, k, j, i] = [d', k', j', i']"
      using that by (intro bexI[of _ d] bexI[of _ i] bexI[of _ k] bexI[of _ j]) simp_all
    then show ?thesis
      using pd by (simp only: if_True)
  qed
  then show ?thesis
    using run sh by blast
qed

section \<open>Magnetic fluxes: facts\<close>

lemma for_each_None:
  assumes "cs \<noteq> []" "\<And>c s. body c s = None"
  shows "for_each cs body s = None"
  using assms by (cases cs) simp_all

lemma py_range_nat: "py_range (int n - 1) = [0..<n - 1]"
  by (simp add: py_range_def nat_diff_distrib')

lemma np_zeros_Some: "\<forall>d \<in> set ds. 0 \<le> d \<Longrightarrow> np_zeros ds = Some (zeros (map nat ds))"
  by (simp add: np_zeros_def)

lemma MaxDiv_cell_patched:
  assumes M: "shape M = [Nd, Nkc, Njc, Nic]" and D: "shape Div = [Nkc - 1, Njc - 1, Nic - 1]"
    and Nd: "3 \<le> Nd" and b: "k < Nkc - 1" "j < Njc - 1" "i < Nic - 1"
  shows "\<exists>Div'. MaxDiv_cell M k j i Div = Some Div' \<and>
           patched [Nkc - 1, Njc - 1, Nic - 1] (\<lambda>x. x = [k, j, i]) (div_val M) Div Div'"
proof -
  have e: "elem M [IDIR, k, j, i + 1] = Some (data M [IDIR, k, j, i + 1])"
      "elem M [IDIR, k, j, i] = Some (data M [IDIR, k, j, i])"
      "elem M [JDIR, k, j + 1, i] = Some (data M [JDIR, k, j + 1, i])"
      "elem M [JDIR, k, j, i] = Some (data M [JDIR, k, j, i])"
      "elem M [KDIR, k + 1, j, i] = Some (data M [KDIR, k + 1, j, i])"
      "elem M [KDIR, k, j, i] = Some (data M [KDIR, k, j, i])"
    using M Nd b by (auto simp: elem_def inb_def IDIR_def JDIR_def KDIR_def)
  have ok: "ix_ok (shape Div) [Ixn k, Ixn j, Ixn i]"
    using D b by simp
  obtain Div' where S:
      "setitem Div [Ixn k, Ixn j, Ixn i] (scalar (div_val M [k, j, i])) = Some Div'"
      "shape Div' = shape Div"
      "\<And>x. data Div' x =
         (if locate (shape Div) [Ixn k, Ixn j, Ixn i] x = None then data Div x
          else div_val M [k, j, i])"
    using setitem_scalar[OF ok] by blast
  have v: "div_val M [k, j, i] =
      data M [IDIR, k, j, i + 1] - data M [IDIR, k, j, i]
          + data M [JDIR, k, j + 1, i] - data M [JDIR, k, j, i]
          + data M [KDIR, k + 1, j, i] - data M [KDIR, k, j, i]"
    by (simp add: div_val_def)
  have run: "MaxDiv_cell M k j i Div = Some Div'"
    by (simp only: MaxDiv_cell_def e S(1)[unfolded v] Option.bind.simps)
  have loc: "(locate (shape Div) [Ixn k, Ixn j, Ixn i] x = None) = (x \<noteq> [k, j, i])" for x
    unfolding D by (rule locate_pt3[OF b])
  have "data Div' x = (if x = [k, j, i] then div_val M x else data Div x)" for x
    using S(3)[of x] by (simp add: loc)
  then show ?thesis
    using run S(2) D by (simp add: patched_def)
qed

lemma MaxDiv_cell_needs_3:
  assumes "shape M = [Nd, Nkc, Njc, Nic]" "Nd < 3"
  shows "MaxDiv_cell M k j i Div = None"
proof -
  have "elem M [KDIR, k, j, i] = None"
    using assms by (simp add: elem_def inb_def KDIR_def)
  then show ?thesis
    by (simp add: MaxDiv_cell_def bind_eq_None_conv)
qed

lemma MaxDiv_cell_shape: "MaxDiv_cell M k j i Div = Some Div' \<Longrightarrow> shape Div' = shape Div"
  unfolding MaxDiv_cell_def by (elim bindE) (rule setitem_shape)


lemma MaxDiv_loops_shape:
  assumes "for_each as (\<lambda>k. for_each bs (\<lambda>j. for_each cs (\<lambda>i. MaxDiv_cell M k j i))) D0 = Some D"
  shows "shape D = shape D0"
proof (rule for_each_pres[where f = shape, OF _ assms])
  fix k s s'
  assume "for_each bs (\<lambda>j. for_each cs (MaxDiv_cell M k j)) s = Some s'"
  then show "shape s' = shape s"
  proof (rule for_each_pres[where f = shape, rotated])
    fix j t t'
    assume "for_each cs (MaxDiv_cell M k j) t = Some t'"
    then show "shape t' = shape t"
      by (rule for_each_pres[where f = shape, rotated]) (rule MaxDiv_cell_shape)
  qed
qed

lemma MaxDiv_run:
  assumes M: "shape M = [Nd, Nkc, Njc, Nic]" and Nd: "3 \<le> Nd"
    and ne: "2 \<le> Nkc" "2 \<le> Njc" "2 \<le> Nic"
  shows "\<exists>D. MaxDiv M = Some D \<and> shape D = [Nkc - 1, Njc - 1, Nic - 1] \<and>
           (\<forall>k j i. k < Nkc - 1 \<longrightarrow> j < Njc - 1 \<longrightarrow> i < Nic - 1 \<longrightarrow>
              data D [k, j, i] = div_val M [k, j, i])"
proof -
  have z0: "np_zeros [int Nkc - 1, int Njc - 1, int Nic - 1]
      = Some (zeros [Nkc - 1, Njc - 1, Nic - 1] :: real ndarray)"
    using ne by (simp add: np_zeros_def nat_diff_distrib')
  have z: "shape (zeros [Nkc - 1, Njc - 1, Nic - 1] :: real ndarray) = [Nkc - 1, Njc - 1, Nic - 1]"
    by (simp add: zeros_def)
  have "\<exists>D. for_each [0..<Nkc - 1] (\<lambda>k.
            for_each [0..<Njc - 1] (\<lambda>j.
              for_each [0..<Nic - 1] (\<lambda>i. MaxDiv_cell M k j i)))
            (zeros [Nkc - 1, Njc - 1, Nic - 1]) = Some D \<and>
      patched [Nkc - 1, Njc - 1, Nic - 1]
        (\<lambda>x. \<exists>k\<in>set [0..<Nkc - 1]. \<exists>j\<in>set [0..<Njc - 1]. \<exists>i\<in>set [0..<Nic - 1]. x = [k, j, i])
        (div_val M) (zeros [Nkc - 1, Njc - 1, Nic - 1]) D"
  proof (rule for_each3_patched[OF _ z])
    fix k j i and A :: "real ndarray"
    assume "k \<in> set [0..<Nkc - 1]" "j \<in> set [0..<Njc - 1]" "i \<in> set [0..<Nic - 1]"
      "shape A = [Nkc - 1, Njc - 1, Nic - 1]"
    then show "\<exists>A'. MaxDiv_cell M k j i A = Some A' \<and>
        patched [Nkc - 1, Njc - 1, Nic - 1] (\<lambda>x. x = [k, j, i]) (div_val M) A A'"
      using MaxDiv_cell_patched[OF M _ Nd] by simp
  qed
  then obtain D where f: "for_each [0..<Nkc - 1] (\<lambda>k.
            for_each [0..<Njc - 1] (\<lambda>j.
              for_each [0..<Nic - 1] (\<lambda>i. MaxDiv_cell M k j i)))
            (zeros [Nkc - 1, Njc - 1, Nic - 1]) = Some D"
    and p: "patched [Nkc - 1, Njc - 1, Nic - 1]
        (\<lambda>x. \<exists>k\<in>set [0..<Nkc - 1]. \<exists>j\<in>set [0..<Njc - 1]. \<exists>i\<in>set [0..<Nic - 1]. x = [k, j, i])
        (div_val M) (zeros [Nkc - 1, Njc - 1, Nic - 1]) D"
    by blast
  have sh: "shape D = [Nkc - 1, Njc - 1, Nic - 1]"
    and pd: "\<And>x. data D x =
       (if \<exists>k\<in>set [0..<Nkc - 1]. \<exists>j\<in>set [0..<Njc - 1]. \<exists>i\<in>set [0..<Nic - 1]. x = [k, j, i]
        then div_val M x else data (zeros [Nkc - 1, Njc - 1, Nic - 1]) x)"
    using p unfolding patched_def by blast+
  have "MaxDiv M = (if prod_list (shape D) = 0 then None else Some D)"
    by (simp only: MaxDiv_def M list.case Let_def z0 py_range_nat f Option.bind.simps)
  then have run: "MaxDiv M = Some D"
    using sh ne by simp
  have "data D [k, j, i] = div_val M [k, j, i]"
    if "k < Nkc - 1" "j < Njc - 1" "i < Nic - 1" for k j i
  proof -
    have "\<exists>k'\<in>set [0..<Nkc - 1]. \<exists>j'\<in>set [0..<Njc - 1]. \<exists>i'\<in>set [0..<Nic - 1].
            [k, j, i] = [k', j', i']"
      using that by (intro bexI[of _ k] bexI[of _ j] bexI[of _ i]) simp_all
    then show ?thesis
      using pd by (simp only: if_True)
  qed
  then show ?thesis
    using run sh by blast
qed

lemma MaxDiv_Some:
  assumes D: "MaxDiv M = Some D" and M: "shape M = [Nd, Nkc, Njc, Nic]"
  shows "3 \<le> Nd \<and> 2 \<le> Nkc \<and> 2 \<le> Njc \<and> 2 \<le> Nic"
proof -
  from D obtain Div0 Div where
    z: "np_zeros [int Nkc - 1, int Njc - 1, int Nic - 1] = Some (Div0 :: real ndarray)"
    and f: "for_each (py_range (int Nkc - 1)) (\<lambda>k.
              for_each (py_range (int Njc - 1)) (\<lambda>j.
                for_each (py_range (int Nic - 1)) (\<lambda>i. MaxDiv_cell M k j i))) Div0 = Some Div"
    and r: "(if prod_list (shape Div) = 0 then None else Some Div) = Some D"
    unfolding MaxDiv_def M list.case Let_def
    by (elim bindE)
  have "shape Div = shape Div0"
    using MaxDiv_loops_shape[OF f] .
  moreover have "shape Div0 = [nat (int Nkc - 1), nat (int Njc - 1), nat (int Nic - 1)]"
    using np_zeros3_shape[OF z] .
  moreover have "prod_list (shape Div) \<noteq> 0"
    using r by (auto split: if_splits)
  ultimately have ne: "2 \<le> Nkc" "2 \<le> Njc" "2 \<le> Nic"
    by auto
  have "3 \<le> Nd"
  proof (rule ccontr)
    assume "\<not> 3 \<le> Nd"
    then have c: "MaxDiv_cell M k j i s = None" for k j i s
      using MaxDiv_cell_needs_3[OF M] by simp
    have n: "[0..<Nkc - 1] \<noteq> []" "[0..<Njc - 1] \<noteq> []" "[0..<Nic - 1] \<noteq> []"
      using ne by simp_all
    have 1: "for_each [0..<Nic - 1] (\<lambda>i. MaxDiv_cell M k j i) s = None" for k j s
      using n(3) c by (rule for_each_None)
    have 2: "for_each [0..<Njc - 1] (\<lambda>j. for_each [0..<Nic - 1] (\<lambda>i. MaxDiv_cell M k j i)) s
        = None" for k s
      using n(2) 1 by (rule for_each_None)
    have "for_each [0..<Nkc - 1] (\<lambda>k. for_each [0..<Njc - 1] (\<lambda>j.
             for_each [0..<Nic - 1] (\<lambda>i. MaxDiv_cell M k j i))) Div0 = None"
      using n(1) 2 by (rule for_each_None)
    then show False
      using f by (simp add: py_range_nat)
  qed
  then show ?thesis using ne by simp
qed

subsection \<open>Halving the fluxes\<close>

lemma np_sum_22:
  assumes "shape A = [2,2]"
  shows "np_sum A = data A [0,0] + data A [0,1] + data A [1,0] + data A [1,1]"
proof -
  have "np_sum A = sum_list (map (data A) (indices [2,2]))"
    using assms by (simp only: np_sum_def)
  then show ?thesis
    by (simp only: indices_22) simp
qed

lemma getitem_face_ki:
  assumes "shape A = [n1,n2,n3,n4]" "d < n1" "a + 2 \<le> n2" "j < n3" "c + 2 \<le> n4"
  shows "\<exists>B. getitem A [Ixn d, Sln a (a+2), Ixn j, Sln c (c+2)] = Some B \<and> shape B = [2,2] \<and>
             (\<forall>x y. data B [x,y] = data A [d, a+x, j, c+y])"
  using assms by (simp add: getitem_def min_absorb1 min_absorb2)

lemma getitem_face_ji:
  assumes "shape A = [n1,n2,n3,n4]" "d < n1" "k < n2" "b + 2 \<le> n3" "c + 2 \<le> n4"
  shows "\<exists>B. getitem A [Ixn d, Ixn k, Sln b (b+2), Sln c (c+2)] = Some B \<and> shape B = [2,2] \<and>
             (\<forall>x y. data B [x,y] = data A [d, k, b+x, c+y])"
  using assms by (simp add: getitem_def min_absorb1 min_absorb2)

lemma setitem_pt4:
  assumes "shape A = [n1,n2,n3,n4]" "d < n1" "k < n2" "j < n3" "i < n4"
  shows "\<exists>A'. setitem A [Ixn d, Ixn k, Ixn j, Ixn i] (scalar c) = Some A' \<and>
           shape A' = [n1,n2,n3,n4] \<and>
           (\<forall>x. data A' x = (if x = [d, k, j, i] then c else data A x))"
proof -
  have ok: "ix_ok (shape A) [Ixn d, Ixn k, Ixn j, Ixn i]"
    using assms by simp
  obtain A' where S: "setitem A [Ixn d, Ixn k, Ixn j, Ixn i] (scalar c) = Some A'"
      "shape A' = shape A"
      "\<And>x. data A' x =
         (if locate (shape A) [Ixn d, Ixn k, Ixn j, Ixn i] x = None then data A x else c)"
    using setitem_scalar[OF ok] by blast
  have loc: "(locate (shape A) [Ixn d, Ixn k, Ixn j, Ixn i] x = None) = (x \<noteq> [d, k, j, i])" for x
    unfolding assms(1) by (rule locate_pt4[OF assms(2-5)])
  have "data A' x = (if x = [d, k, j, i] then c else data A x)" for x
    using S(3)[of x] by (simp add: loc)
  then show ?thesis
    using S(1,2) assms(1) by simp
qed

lemma downFlux_cell_patched:
  assumes M: "shape M = [Nd, Nkc, Njc, Nic]"
    and Md: "shape Md = [Nd, (Nkc - 1) div 2 + 1, (Njc - 1) div 2 + 1, (Nic - 1) div 2 + 1]"
    and Nd: "3 \<le> Nd"
    and b: "k < (Nkc - 1) div 2" "j < (Njc - 1) div 2" "i < (Nic - 1) div 2"
  shows "\<exists>Md'. downFlux_cell M k j i Md = Some Md' \<and>
           patched [Nd, (Nkc - 1) div 2 + 1, (Njc - 1) div 2 + 1, (Nic - 1) div 2 + 1]
             (in_dface k j i) (downFlux_val M) Md Md'"
proof -
  let ?sh = "[Nd, (Nkc - 1) div 2 + 1, (Njc - 1) div 2 + 1, (Nic - 1) div 2 + 1]"
  have d: "IDIR < Nd" "JDIR < Nd" "KDIR < Nd"
    using Nd by (simp_all add: IDIR_def JDIR_def KDIR_def)
  have r: "2*k + 2 \<le> Nkc" "2*j + 2 \<le> Njc" "2*i + 2 \<le> Nic"
      "2*k < Nkc" "2*j < Njc" "2*i < Nic" "2*k + 2 < Nkc" "2*j + 2 < Njc" "2*i + 2 < Nic"
    using b by auto
  have c: "k < (Nkc - 1) div 2 + 1" "j < (Njc - 1) div 2 + 1" "i < (Nic - 1) div 2 + 1"
      "k + 1 < (Nkc - 1) div 2 + 1" "j + 1 < (Njc - 1) div 2 + 1" "i + 1 < (Nic - 1) div 2 + 1"
    using b by auto
  obtain w where w: "getitem M [Ixn IDIR, Sln (2*k) (2*k + 2), Sln (2*j) (2*j + 2), Ixn (2*i)] = Some w"
      "shape w = [2,2]" "\<And>x y. data w [x,y] = data M [IDIR, 2*k + x, 2*j + y, 2*i]"
    using getitem_vblk4[OF M d(1) r(1) r(2) r(6)] by auto
  obtain Md1 where m1: "setitem Md [Ixn IDIR, Ixn k, Ixn j, Ixn i] (scalar (np_sum w)) = Some Md1"
      "shape Md1 = ?sh" "\<And>x. data Md1 x = (if x = [IDIR, k, j, i] then np_sum w else data Md x)"
    using setitem_pt4[OF Md d(1) c(1) c(2) c(3)] by blast
  obtain e where e: "getitem M [Ixn IDIR, Sln (2*k) (2*k + 2), Sln (2*j) (2*j + 2), Ixn (2*i + 2)] = Some e"
      "shape e = [2,2]" "\<And>x y. data e [x,y] = data M [IDIR, 2*k + x, 2*j + y, 2*i + 2]"
    using getitem_vblk4[OF M d(1) r(1) r(2) r(9)] by auto
  obtain Md2 where m2: "setitem Md1 [Ixn IDIR, Ixn k, Ixn j, Ixn (i + 1)] (scalar (np_sum e)) = Some Md2"
      "shape Md2 = ?sh" "\<And>x. data Md2 x = (if x = [IDIR, k, j, i + 1] then np_sum e else data Md1 x)"
    using setitem_pt4[OF m1(2) d(1) c(1) c(2) c(6)] by blast
  obtain s where s: "getitem M [Ixn JDIR, Sln (2*k) (2*k + 2), Ixn (2*j), Sln (2*i) (2*i + 2)] = Some s"
      "shape s = [2,2]" "\<And>x y. data s [x,y] = data M [JDIR, 2*k + x, 2*j, 2*i + y]"
    using getitem_face_ki[OF M d(2) r(1) r(5) r(3)] by auto
  obtain Md3 where m3: "setitem Md2 [Ixn JDIR, Ixn k, Ixn j, Ixn i] (scalar (np_sum s)) = Some Md3"
      "shape Md3 = ?sh" "\<And>x. data Md3 x = (if x = [JDIR, k, j, i] then np_sum s else data Md2 x)"
    using setitem_pt4[OF m2(2) d(2) c(1) c(2) c(3)] by blast
  obtain n where n: "getitem M [Ixn JDIR, Sln (2*k) (2*k + 2), Ixn (2*j + 2), Sln (2*i) (2*i + 2)] = Some n"
      "shape n = [2,2]" "\<And>x y. data n [x,y] = data M [JDIR, 2*k + x, 2*j + 2, 2*i + y]"
    using getitem_face_ki[OF M d(2) r(1) r(8) r(3)] by auto
  obtain Md4 where m4: "setitem Md3 [Ixn JDIR, Ixn k, Ixn (j + 1), Ixn i] (scalar (np_sum n)) = Some Md4"
      "shape Md4 = ?sh" "\<And>x. data Md4 x = (if x = [JDIR, k, j + 1, i] then np_sum n else data Md3 x)"
    using setitem_pt4[OF m3(2) d(2) c(1) c(5) c(3)] by blast
  obtain bt where bt: "getitem M [Ixn KDIR, Ixn (2*k), Sln (2*j) (2*j + 2), Sln (2*i) (2*i + 2)] = Some bt"
      "shape bt = [2,2]" "\<And>x y. data bt [x,y] = data M [KDIR, 2*k, 2*j + x, 2*i + y]"
    using getitem_face_ji[OF M d(3) r(4) r(2) r(3)] by auto
  obtain Md5 where m5: "setitem Md4 [Ixn KDIR, Ixn k, Ixn j, Ixn i] (scalar (np_sum bt)) = Some Md5"
      "shape Md5 = ?sh" "\<And>x. data Md5 x = (if x = [KDIR, k, j, i] then np_sum bt else data Md4 x)"
    using setitem_pt4[OF m4(2) d(3) c(1) c(2) c(3)] by blast
  obtain t where t: "getitem M [Ixn KDIR, Ixn (2*k + 2), Sln (2*j) (2*j + 2), Sln (2*i) (2*i + 2)] = Some t"
      "shape t = [2,2]" "\<And>x y. data t [x,y] = data M [KDIR, 2*k + 2, 2*j + x, 2*i + y]"
    using getitem_face_ji[OF M d(3) r(7) r(2) r(3)] by auto
  obtain Md6 where m6: "setitem Md5 [Ixn KDIR, Ixn (k + 1), Ixn j, Ixn i] (scalar (np_sum t)) = Some Md6"
      "shape Md6 = ?sh" "\<And>x. data Md6 x = (if x = [KDIR, k + 1, j, i] then np_sum t else data Md5 x)"
    using setitem_pt4[OF m5(2) d(3) c(4) c(2) c(3)] by blast
  have run: "downFlux_cell M k j i Md = Some Md6"
    by (simp only: downFlux_cell_def Let_def w(1) m1(1) e(1) m2(1) s(1) m3(1) n(1) m4(1)
          bt(1) m5(1) t(1) m6(1) Option.bind.simps)
  have v: "np_sum w = downFlux_val M [IDIR, k, j, i]"
      "np_sum e = downFlux_val M [IDIR, k, j, i + 1]"
      "np_sum s = downFlux_val M [JDIR, k, j, i]"
      "np_sum n = downFlux_val M [JDIR, k, j + 1, i]"
      "np_sum bt = downFlux_val M [KDIR, k, j, i]"
      "np_sum t = downFlux_val M [KDIR, k + 1, j, i]"
    by (simp_all add: np_sum_22 w e s n bt t downFlux_val_def IDIR_def JDIR_def KDIR_def)
  have "data Md6 x = (if in_dface k j i x then downFlux_val M x else data Md x)" for x
    unfolding m6(3) m5(3) m4(3) m3(3) m2(3) m1(3) v in_dface_def
    by (auto simp: IDIR_def JDIR_def KDIR_def)
  then show ?thesis
    using run m6(2) by (auto simp: patched_def)
qed

lemma half_int: "1 \<le> n \<Longrightarrow> (int n - 1) div 2 = int ((n - 1) div 2)"
  by (simp add: of_nat_diff zdiv_int)

lemma inb3: "inb [a, b, c] idx = (\<exists>k j i. idx = [k, j, i] \<and> k < a \<and> j < b \<and> i < c)"
  by (auto simp: inb_def list_all2_Cons2)

lemma downFlux_run:
  assumes M: "shape M = [Nd, Nkc, Njc, Nic]" and Nd: "3 \<le> Nd"
    and ne: "1 \<le> Nkc" "1 \<le> Njc" "1 \<le> Nic"
  shows "\<exists>Md. downFlux X Y Z M Xu Yu Zu = Some Md \<and>
           shape Md = [Nd, (Nkc - 1) div 2 + 1, (Njc - 1) div 2 + 1, (Nic - 1) div 2 + 1] \<and>
           (\<forall>k j i x. k < (Nkc - 1) div 2 \<longrightarrow> j < (Njc - 1) div 2 \<longrightarrow> i < (Nic - 1) div 2 \<longrightarrow>
              in_dface k j i x \<longrightarrow> data Md x = downFlux_val M x)"
proof -
  let ?sh = "[Nd, (Nkc - 1) div 2 + 1, (Njc - 1) div 2 + 1, (Nic - 1) div 2 + 1]"
  have h: "(int Nkc - 1) div 2 = int ((Nkc - 1) div 2)" "(int Njc - 1) div 2 = int ((Njc - 1) div 2)"
      "(int Nic - 1) div 2 = int ((Nic - 1) div 2)"
    using ne by (simp_all add: half_int)
  have z0: "np_zeros [int Nd, (int Nkc - 1) div 2 + 1, (int Njc - 1) div 2 + 1,
              (int Nic - 1) div 2 + 1] = Some (zeros ?sh :: real ndarray)"
    unfolding h by (simp add: np_zeros_def nat_add_distrib)
  have pr: "py_range ((int Nkc - 1) div 2) = [0..<(Nkc - 1) div 2]"
      "py_range ((int Njc - 1) div 2) = [0..<(Njc - 1) div 2]"
      "py_range ((int Nic - 1) div 2) = [0..<(Nic - 1) div 2]"
    unfolding h by (simp_all add: py_range_def)
  have z: "shape (zeros ?sh :: real ndarray) = ?sh"
    by (simp add: zeros_def)
  have "\<exists>Md. for_each [0..<(Nkc - 1) div 2] (\<lambda>k.
            for_each [0..<(Njc - 1) div 2] (\<lambda>j.
              for_each [0..<(Nic - 1) div 2] (\<lambda>i. downFlux_cell M k j i))) (zeros ?sh) = Some Md \<and>
      patched ?sh
        (\<lambda>x. \<exists>k\<in>set [0..<(Nkc - 1) div 2]. \<exists>j\<in>set [0..<(Njc - 1) div 2].
               \<exists>i\<in>set [0..<(Nic - 1) div 2]. in_dface k j i x)
        (downFlux_val M) (zeros ?sh) Md"
  proof (rule for_each3_patched[OF _ z])
    fix k j i and A :: "real ndarray"
    assume "k \<in> set [0..<(Nkc - 1) div 2]" "j \<in> set [0..<(Njc - 1) div 2]"
      "i \<in> set [0..<(Nic - 1) div 2]" "shape A = ?sh"
    then show "\<exists>A'. downFlux_cell M k j i A = Some A' \<and>
        patched ?sh (in_dface k j i) (downFlux_val M) A A'"
      using downFlux_cell_patched[OF M _ Nd] by simp
  qed
  then obtain Md where f: "for_each [0..<(Nkc - 1) div 2] (\<lambda>k.
            for_each [0..<(Njc - 1) div 2] (\<lambda>j.
              for_each [0..<(Nic - 1) div 2] (\<lambda>i. downFlux_cell M k j i))) (zeros ?sh) = Some Md"
    and p: "patched ?sh
        (\<lambda>x. \<exists>k\<in>set [0..<(Nkc - 1) div 2]. \<exists>j\<in>set [0..<(Njc - 1) div 2].
               \<exists>i\<in>set [0..<(Nic - 1) div 2]. in_dface k j i x)
        (downFlux_val M) (zeros ?sh) Md"
    by blast
  have sh: "shape Md = ?sh"
    and pd: "\<And>x. data Md x =
       (if \<exists>k\<in>set [0..<(Nkc - 1) div 2]. \<exists>j\<in>set [0..<(Njc - 1) div 2].
               \<exists>i\<in>set [0..<(Nic - 1) div 2]. in_dface k j i x
        then downFlux_val M x else data (zeros ?sh) x)"
    using p unfolding patched_def by blast+
  have run: "downFlux X Y Z M Xu Yu Zu = Some Md"
    by (simp only: downFlux_def M list.case Let_def z0 pr f Option.bind.simps)
  have "data Md x = downFlux_val M x"
    if "k < (Nkc - 1) div 2" "j < (Njc - 1) div 2" "i < (Nic - 1) div 2" "in_dface k j i x"
    for k j i x
  proof -
    have "\<exists>k'\<in>set [0..<(Nkc - 1) div 2]. \<exists>j'\<in>set [0..<(Njc - 1) div 2].
               \<exists>i'\<in>set [0..<(Nic - 1) div 2]. in_dface k' j' i' x"
      using that by (intro bexI[of _ k] bexI[of _ j] bexI[of _ i]) simp_all
    then show ?thesis
      using pd by (simp only: if_True)
  qed
  then show ?thesis
    using run sh by blast
qed

lemma coarse_divergence:
  assumes "\<And>x. in_dface k j i x \<Longrightarrow> data Md x = downFlux_val M x"
  shows "div_val Md [k, j, i] = blk_sum (div_val M) k j i"
proof -
  have f: "data Md [IDIR, k, j, i + 1] = downFlux_val M [IDIR, k, j, i + 1]"
      "data Md [IDIR, k, j, i] = downFlux_val M [IDIR, k, j, i]"
      "data Md [JDIR, k, j + 1, i] = downFlux_val M [JDIR, k, j + 1, i]"
      "data Md [JDIR, k, j, i] = downFlux_val M [JDIR, k, j, i]"
      "data Md [KDIR, k + 1, j, i] = downFlux_val M [KDIR, k + 1, j, i]"
      "data Md [KDIR, k, j, i] = downFlux_val M [KDIR, k, j, i]"
    by (rule assms, simp add: in_dface_def)+
  show ?thesis
    unfolding div_val_def list.case f
    by (simp add: downFlux_val_def blk_sum_def IDIR_def JDIR_def KDIR_def)
qed

subsection \<open>Doubling the fluxes\<close>

lemma in_fkj_length: "in_fkj d k j i x \<Longrightarrow> length x = 4"
  by (auto simp: in_fkj_def split: list.splits)

lemma in_fki_length: "in_fki d k j i x \<Longrightarrow> length x = 4"
  by (auto simp: in_fki_def split: list.splits)

lemma in_fji_length: "in_fji d k j i x \<Longrightarrow> length x = 4"
  by (auto simp: in_fji_def split: list.splits)

lemma locate_fkj:
  assumes "d < n1" "2*k + 2 \<le> n2" "2*j + 2 \<le> n3" "i < n4"
  shows "locate [n1,n2,n3,n4] [Ixn d, Sln (2*k) (2*k + 2), Sln (2*j) (2*j + 2), Ixn i] x =
           (if in_fkj d k j i x then Some [x ! 1 - 2*k, x ! 2 - 2*j] else None)"
proof (cases "length x = 4")
  case False
  then show ?thesis using in_fkj_length by (auto simp: locate_wrong_length)
next
  case True
  then obtain x1 x2 x3 x4 where x: "x = [x1,x2,x3,x4]"
    using len4 by blast
  have m: "min (2*k) n2 = 2*k" "min (2*k + 2) n2 = 2*k + 2"
      "min (2*j) n3 = 2*j" "min (2*j + 2) n3 = 2*j + 2"
    using assms by simp_all
  show ?thesis
    unfolding x in_fkj_def list.case div2_eq_iff
    using assms(1,4) by (simp only: locate.simps axis_Sln axis_Ixn m) (auto simp: inb_def)
qed

lemma locate_fki:
  assumes "d < n1" "2*k + 2 \<le> n2" "j < n3" "2*i + 2 \<le> n4"
  shows "locate [n1,n2,n3,n4] [Ixn d, Sln (2*k) (2*k + 2), Ixn j, Sln (2*i) (2*i + 2)] x =
           (if in_fki d k j i x then Some [x ! 1 - 2*k, x ! 3 - 2*i] else None)"
proof (cases "length x = 4")
  case False
  then show ?thesis using in_fki_length by (auto simp: locate_wrong_length)
next
  case True
  then obtain x1 x2 x3 x4 where x: "x = [x1,x2,x3,x4]"
    using len4 by blast
  have m: "min (2*k) n2 = 2*k" "min (2*k + 2) n2 = 2*k + 2"
      "min (2*i) n4 = 2*i" "min (2*i + 2) n4 = 2*i + 2"
    using assms by simp_all
  show ?thesis
    unfolding x in_fki_def list.case div2_eq_iff
    using assms(1,3) by (simp only: locate.simps axis_Sln axis_Ixn m) (auto simp: inb_def)
qed

lemma locate_fji:
  assumes "d < n1" "k < n2" "2*j + 2 \<le> n3" "2*i + 2 \<le> n4"
  shows "locate [n1,n2,n3,n4] [Ixn d, Ixn k, Sln (2*j) (2*j + 2), Sln (2*i) (2*i + 2)] x =
           (if in_fji d k j i x then Some [x ! 2 - 2*j, x ! 3 - 2*i] else None)"
proof (cases "length x = 4")
  case False
  then show ?thesis using in_fji_length by (auto simp: locate_wrong_length)
next
  case True
  then obtain x1 x2 x3 x4 where x: "x = [x1,x2,x3,x4]"
    using len4 by blast
  have m: "min (2*j) n3 = 2*j" "min (2*j + 2) n3 = 2*j + 2"
      "min (2*i) n4 = 2*i" "min (2*i + 2) n4 = 2*i + 2"
    using assms by simp_all
  show ?thesis
    unfolding x in_fji_def list.case div2_eq_iff
    using assms(1,2) by (simp only: locate.simps axis_Sln axis_Ixn m) (auto simp: inb_def)
qed

section \<open>Claims about the gas variables\<close>

text \<open>
  C6.  For every coarse cell \<open>(s,v,k,j,i)\<close> whose eight fine sub-cells have positive
  volume, \<^verbatim>\<open>upGas\<close> redistributes the parent amount exactly: the sum over the child
  cells of child density times child volume equals parent density times parent volume.
  The grids conform to the gas state (\<open>N + 9\<close> nodes with ghosts for \<open>N\<close> cells), and
  arithmetic is exact.
\<close>

theorem upGas_redistributes_exactly:
  assumes "shape G = [Ns, Nv, Nk, Nj, Ni]"
    and "shape X = [Nk + 9, Nj + 9, Ni + 9]" and "shape Xu = [2*Nk + 9, 2*Nj + 9, 2*Ni + 9]"
    and "Volume hvol X Y Z = Some dV" and "Volume hvol Xu Yu Zu = Some dVu"
    and "s < Ns" "v < Nv" "k < Nk" "j < Nj" "i < Ni"
    and "\<forall>a<2. \<forall>b<2. \<forall>c<2. 0 < data dVu [2*k + a, 2*j + b, 2*i + c]"
  shows "\<exists>Gu. upGas hvol X Y Z G Xu Yu Zu = Some Gu \<and>
           blk_sum (\<lambda>c. data Gu (s # v # c) * data dVu c) k j i
             = data G [s, v, k, j, i] * data dV [k, j, i]"
proof -
  obtain Gu where run: "upGas hvol X Y Z G Xu Yu Zu = Some Gu"
    and val: "\<forall>s v kf jf if'. s < Ns \<longrightarrow> v < Nv \<longrightarrow> kf < 2*Nk \<longrightarrow> jf < 2*Nj \<longrightarrow> if' < 2*Ni \<longrightarrow>
              data Gu [s, v, kf, jf, if'] = upGas_val dV dVu G [s, v, kf, jf, if']"
    using upGas_run[OF assms(1-5)] by blast
  have v: "data Gu [s, v, 2*k + a, 2*j + b, 2*i + c] = upGas_val dV dVu G [s, v, 2*k + a, 2*j + b, 2*i + c]"
    if "a < 2" "b < 2" "c < 2" for a b c
    using val assms(6-10) that by simp
  have "blk_sum (\<lambda>c. data Gu (s # v # c) * data dVu c) k j i
             = data G [s, v, k, j, i] * data dV [k, j, i]"
    using v assms(11) by (rule upGas_block_amount)
  then show ?thesis
    using run by simp
qed

theorem upGas_redistributes_exactly_witness:
  "\<exists>Gu. upGas ex_hvol (ex_X 1 2) (ex_Y 1 2) (ex_Z 1 2) ex_gas1
           (ex_X 2 1) (ex_Y 2 1) (ex_Z 2 1) = Some Gu \<and>
     blk_sum (\<lambda>c. data Gu (0 # 0 # c) *
         data (the (Volume ex_hvol (ex_X 2 1) (ex_Y 2 1) (ex_Z 2 1))) c) 0 0 0
       = data ex_gas1 [0, 0, 0, 0, 0] *
         data (the (Volume ex_hvol (ex_X 1 2) (ex_Y 1 2) (ex_Z 1 2))) [0, 0, 0]"
proof -
  obtain dV where v1: "Volume ex_hvol (ex_X 1 2) (ex_Y 1 2) (ex_Z 1 2) = Some dV"
    using ex_Volume1 by blast
  obtain dVu where v2: "Volume ex_hvol (ex_X 2 1) (ex_Y 2 1) (ex_Z 2 1) = Some dVu"
    and p: "\<forall>a<2. \<forall>b<2. \<forall>c<2. data dVu [a,b,c] = 1"
    using ex_Volume2 by blast
  have pos: "\<forall>a<2. \<forall>b<2. \<forall>c<2. (0::real) < data dVu [2*0 + a, 2*0 + b, 2*0 + c]"
    using p by simp
  have g: "shape ex_gas1 = [1, 1, 1, 1, 1]" "shape (ex_X 1 2) = [1 + 9, 1 + 9, 1 + 9]"
    "shape (ex_X 2 1) = [2*1 + 9, 2*1 + 9, 2*1 + 9]"
    by (simp_all add: ex_gas1_def ex_X_def)
  have "\<exists>Gu. upGas ex_hvol (ex_X 1 2) (ex_Y 1 2) (ex_Z 1 2) ex_gas1
           (ex_X 2 1) (ex_Y 2 1) (ex_Z 2 1) = Some Gu \<and>
     blk_sum (\<lambda>c. data Gu (0 # 0 # c) * data dVu c) 0 0 0
       = data ex_gas1 [0, 0, 0, 0, 0] * data dV [0, 0, 0]"
    using upGas_redistributes_exactly[where s = 0 and v = 0, OF g v1 v2 _ _ _ _ _ pos]
    by simp
  then show ?thesis
    by (simp only: v1 v2 option.sel)
qed

text \<open>
  C4.  Halving the result of doubling recovers the original gas state: for a coarse
  grid and its fine grid with positive cell volumes, \<^verbatim>\<open>downGas\<close> applied to the
  result of \<^verbatim>\<open>upGas\<close> returns an array of the shape of \<open>G\<close> that equals \<open>G\<close> at every
  cell, in exact arithmetic.
\<close>

theorem downGas_upGas_identity:
  assumes "shape G = [Ns, Nv, Nk, Nj, Ni]"
    and "shape X = [Nk + 9, Nj + 9, Ni + 9]" and "shape Xu = [2*Nk + 9, 2*Nj + 9, 2*Ni + 9]"
    and "Volume hvol X Y Z = Some dV" and "Volume hvol Xu Yu Zu = Some dVu"
    and "\<forall>k<Nk. \<forall>j<Nj. \<forall>i<Ni. 0 < data dV [k, j, i]"
    and "\<forall>k<2*Nk. \<forall>j<2*Nj. \<forall>i<2*Ni. 0 < data dVu [k, j, i]"
  shows "\<exists>Gu Gd. upGas hvol X Y Z G Xu Yu Zu = Some Gu \<and>
           downGas hvol Xu Yu Zu Gu X Y Z = Some Gd \<and>
           shape Gd = shape G \<and>
           (\<forall>s<Ns. \<forall>v<Nv. \<forall>k<Nk. \<forall>j<Nj. \<forall>i<Ni. data Gd [s, v, k, j, i] = data G [s, v, k, j, i])"
proof -
  obtain Gu where up: "upGas hvol X Y Z G Xu Yu Zu = Some Gu"
    and shu: "shape Gu = [Ns, Nv, 2*Nk, 2*Nj, 2*Ni]"
    and valu: "\<forall>s v kf jf if'. s < Ns \<longrightarrow> v < Nv \<longrightarrow> kf < 2*Nk \<longrightarrow> jf < 2*Nj \<longrightarrow> if' < 2*Ni \<longrightarrow>
              data Gu [s, v, kf, jf, if'] = upGas_val dV dVu G [s, v, kf, jf, if']"
    using upGas_run[OF assms(1-5)] by blast
  have Xd: "shape X = [2*Nk div 2 + 9, 2*Nj div 2 + 9, 2*Ni div 2 + 9]"
    using assms(2) by simp
  obtain Gd where down: "downGas hvol Xu Yu Zu Gu X Y Z = Some Gd"
    and shd: "shape Gd = [Ns, Nv, 2*Nk div 2, 2*Nj div 2, 2*Ni div 2]"
    and vald: "\<forall>s v k j i. s < Ns \<longrightarrow> v < Nv \<longrightarrow> k < 2*Nk div 2 \<longrightarrow> j < 2*Nj div 2 \<longrightarrow> i < 2*Ni div 2 \<longrightarrow>
              data Gd [s, v, k, j, i] = downGas_val dVu dV Gu [s, v, k, j, i]"
    using downGas_run[OF shu assms(3) Xd assms(5) assms(4)] by blast
  have "data Gd [s, v, k, j, i] = data G [s, v, k, j, i]"
    if b: "s < Ns" "v < Nv" "k < Nk" "j < Nj" "i < Ni" for s v k j i
  proof -
    have posu: "\<forall>a<2. \<forall>b<2. \<forall>c<2. 0 < data dVu [2*k + a, 2*j + b, 2*i + c]"
      using assms(7) b by simp
    have "data Gu [s, v, 2*k + a, 2*j + b, 2*i + c]
        = upGas_val dV dVu G [s, v, 2*k + a, 2*j + b, 2*i + c]"
      if "a < 2" "b < 2" "c < 2" for a b c
      using valu b that by simp
    then have amt: "blk_sum (\<lambda>c. data Gu (s # v # c) * data dVu c) k j i
           = data G [s, v, k, j, i] * data dV [k, j, i]"
      using posu by (rule upGas_block_amount)
    have posd: "0 < data dV [k, j, i]"
      using assms(6) b by blast
    have "data Gd [s, v, k, j, i] = downGas_val dVu dV Gu [s, v, k, j, i]"
      using vald b by simp
    also have "\<dots> = blk_sum (\<lambda>c. data Gu (s # v # c) * data dVu c) k j i / data dV [k, j, i]"
      by (simp add: downGas_val_def blk_sum_def mult.commute)
    also have "\<dots> = data G [s, v, k, j, i]"
      using amt posd by simp
    finally show ?thesis .
  qed
  then show ?thesis
    using up down shd assms(1) by auto
qed

theorem downGas_upGas_identity_witness:
  "\<exists>Gu Gd. upGas ex_hvol (ex_X 1 2) (ex_Y 1 2) (ex_Z 1 2) ex_gas1
              (ex_X 2 1) (ex_Y 2 1) (ex_Z 2 1) = Some Gu \<and>
     downGas ex_hvol (ex_X 2 1) (ex_Y 2 1) (ex_Z 2 1) Gu
              (ex_X 1 2) (ex_Y 1 2) (ex_Z 1 2) = Some Gd \<and>
     shape Gd = shape ex_gas1 \<and>
     (\<forall>s<1. \<forall>v<1. \<forall>k<1. \<forall>j<1. \<forall>i<1. data Gd [s, v, k, j, i] = data ex_gas1 [s, v, k, j, i])"
proof -
  obtain dV where v1: "Volume ex_hvol (ex_X 1 2) (ex_Y 1 2) (ex_Z 1 2) = Some dV"
    and p1: "data dV [0,0,0] = 8"
    using ex_Volume1 by blast
  obtain dVu where v2: "Volume ex_hvol (ex_X 2 1) (ex_Y 2 1) (ex_Z 2 1) = Some dVu"
    and p2: "\<forall>a<2. \<forall>b<2. \<forall>c<2. data dVu [a,b,c] = 1"
    using ex_Volume2 by blast
  have h1: "\<forall>k<1. \<forall>j<1. \<forall>i<1. (0::real) < data dV [k, j, i]"
    using p1 by simp
  have h2: "\<forall>k<2*1. \<forall>j<2*1. \<forall>i<2*1. (0::real) < data dVu [k, j, i]"
    using p2 by simp
  have g: "shape ex_gas1 = [1, 1, 1, 1, 1]" "shape (ex_X 1 2) = [1 + 9, 1 + 9, 1 + 9]"
    "shape (ex_X 2 1) = [2*1 + 9, 2*1 + 9, 2*1 + 9]"
    by (simp_all add: ex_gas1_def ex_X_def)
  show ?thesis
    using downGas_upGas_identity[OF g v1 v2 h1 h2] by (simp only: g(1))
qed

text \<open>
  C1 (as amended).  \<^verbatim>\<open>downGas\<close> halves all three logical axes.  For a gas state of
  shape \<open>(Ns,Nv,Nk,Nj,Ni)\<close>, a fine grid of \<open>N + 9\<close> nodes and a coarse grid of
  \<open>N div 2 + 9\<close> nodes along each axis, and whenever \<^verbatim>\<open>Volume\<close> returns the cell volumes
  of the fine and of the coarse grid, \<^verbatim>\<open>downGas\<close> returns an array of shape
  \<open>(Ns,Nv,Nk div 2,Nj div 2,Ni div 2)\<close> in which each coarse cell holds the sum of
  density times volume over its 2 by 2 by 2 block of fine cells (2 in K, 2 in J and 2
  in I), divided by the volume of the coarse cell.  (\<^verbatim>\<open>Volume\<close> raises, and \<^verbatim>\<open>downGas\<close>
  with it, when a grid has cells in J and I but no layer of cells in K, or when the hull
  of a cell cannot be computed; \<open>Volume_run\<close> gives the cases in which it returns.)
\<close>

theorem downGas_halves_all_axes:
  assumes "shape G = [Ns, Nv, Nk, Nj, Ni]"
    and "shape X = [Nk + 9, Nj + 9, Ni + 9]"
    and "shape Xd = [Nk div 2 + 9, Nj div 2 + 9, Ni div 2 + 9]"
    and "Volume hvol X Y Z = Some dV" and "Volume hvol Xd Yd Zd = Some dVd"
  shows "\<exists>Gd. downGas hvol X Y Z G Xd Yd Zd = Some Gd \<and>
           shape Gd = [Ns, Nv, Nk div 2, Nj div 2, Ni div 2] \<and>
           (\<forall>s<Ns. \<forall>v<Nv. \<forall>k<Nk div 2. \<forall>j<Nj div 2. \<forall>i<Ni div 2.
              data Gd [s, v, k, j, i] =
                blk_sum (\<lambda>c. data dV c * data G (s # v # c)) k j i / data dVd [k, j, i])"
proof -
  obtain Gd where down: "downGas hvol X Y Z G Xd Yd Zd = Some Gd"
    and shd: "shape Gd = [Ns, Nv, Nk div 2, Nj div 2, Ni div 2]"
    and vald: "\<forall>s v k j i. s < Ns \<longrightarrow> v < Nv \<longrightarrow> k < Nk div 2 \<longrightarrow> j < Nj div 2 \<longrightarrow> i < Ni div 2 \<longrightarrow>
              data Gd [s, v, k, j, i] = downGas_val dV dVd G [s, v, k, j, i]"
    using downGas_run[OF assms] by blast
  have "data Gd [s, v, k, j, i] =
                blk_sum (\<lambda>c. data dV c * data G (s # v # c)) k j i / data dVd [k, j, i]"
    if "s < Ns" "v < Nv" "k < Nk div 2" "j < Nj div 2" "i < Ni div 2" for s v k j i
    using vald that by (simp add: downGas_val_def)
  then show ?thesis
    using down shd by blast
qed

theorem downGas_halves_all_axes_witness:
  "\<exists>Gd. downGas ex_hvol (ex_X 2 1) (ex_Y 2 1) (ex_Z 2 1) ex_gas2
           (ex_X 1 2) (ex_Y 1 2) (ex_Z 1 2) = Some Gd \<and>
      shape Gd = [1, 1, 2 div 2, 2 div 2, 2 div 2] \<and>
      (\<forall>s<1. \<forall>v<1. \<forall>k<2 div 2. \<forall>j<2 div 2. \<forall>i<2 div 2.
         data Gd [s, v, k, j, i] =
           blk_sum (\<lambda>c. data (the (Volume ex_hvol (ex_X 2 1) (ex_Y 2 1) (ex_Z 2 1))) c
                         * data ex_gas2 (s # v # c)) k j i
           / data (the (Volume ex_hvol (ex_X 1 2) (ex_Y 1 2) (ex_Z 1 2))) [k, j, i])"
proof -
  obtain dV where v1: "Volume ex_hvol (ex_X 1 2) (ex_Y 1 2) (ex_Z 1 2) = Some dV"
    using ex_Volume1 by blast
  obtain dVu where v2: "Volume ex_hvol (ex_X 2 1) (ex_Y 2 1) (ex_Z 2 1) = Some dVu"
    using ex_Volume2 by blast
  have g: "shape ex_gas2 = [1, 1, 2, 2, 2]" "shape (ex_X 2 1) = [2 + 9, 2 + 9, 2 + 9]"
    "shape (ex_X 1 2) = [2 div 2 + 9, 2 div 2 + 9, 2 div 2 + 9]"
    by (simp_all add: ex_gas2_def ex_X_def)
  show ?thesis
    using downGas_halves_all_axes[OF g v2 v1] by (simp only: v1 v2 option.sel)
qed

text \<open>
  C1 as stated fails: on a gas state of shape \<open>(1,1,2,2,2)\<close> the result has shape
  \<open>(1,1,1,1,1)\<close>, not \<open>(1,1,1,1,2)\<close>, and its only cell holds the amount of all eight fine
  cells (densities 1 to 8, volumes 1), both cells along I included, divided by the
  coarse volume 8.
\<close>

theorem downGas_keeps_I_counterexample:
  "map_option shape (downGas ex_hvol (ex_X 2 1) (ex_Y 2 1) (ex_Z 2 1) ex_gas2
       (ex_X 1 2) (ex_Y 1 2) (ex_Z 1 2)) = Some [1, 1, 1, 1, 1] \<and>
   map_option shape (downGas ex_hvol (ex_X 2 1) (ex_Y 2 1) (ex_Z 2 1) ex_gas2
       (ex_X 1 2) (ex_Y 1 2) (ex_Z 1 2)) \<noteq> Some [1, 1, 2 div 2, 2 div 2, 2] \<and>
   elem_of [0, 0, 0, 0, 0] (downGas ex_hvol (ex_X 2 1) (ex_Y 2 1) (ex_Z 2 1) ex_gas2
       (ex_X 1 2) (ex_Y 1 2) (ex_Z 1 2)) = Some (9 / 2)"
proof -
  obtain dV where v1: "Volume ex_hvol (ex_X 1 2) (ex_Y 1 2) (ex_Z 1 2) = Some dV"
    and p1: "data dV [0,0,0] = 8"
    using ex_Volume1 by blast
  obtain dVu where v2: "Volume ex_hvol (ex_X 2 1) (ex_Y 2 1) (ex_Z 2 1) = Some dVu"
    and p2: "\<forall>a<2. \<forall>b<2. \<forall>c<2. data dVu [a,b,c] = 1"
    using ex_Volume2 by blast
  have g: "shape ex_gas2 = [1, 1, 2, 2, 2]" "shape (ex_X 2 1) = [2 + 9, 2 + 9, 2 + 9]"
    "shape (ex_X 1 2) = [2 div 2 + 9, 2 div 2 + 9, 2 div 2 + 9]"
    by (simp_all add: ex_gas2_def ex_X_def)
  obtain Gd where down: "downGas ex_hvol (ex_X 2 1) (ex_Y 2 1) (ex_Z 2 1) ex_gas2
       (ex_X 1 2) (ex_Y 1 2) (ex_Z 1 2) = Some Gd"
    and shd: "shape Gd = [1, 1, 2 div 2, 2 div 2, 2 div 2]"
    and vald: "\<forall>s v k j i. s < 1 \<longrightarrow> v < 1 \<longrightarrow> k < 2 div 2 \<longrightarrow> j < 2 div 2 \<longrightarrow> i < 2 div 2 \<longrightarrow>
              data Gd [s, v, k, j, i] = downGas_val dVu dV ex_gas2 [s, v, k, j, i]"
    using downGas_run[OF g v2 v1] by blast
  have "data Gd [0, 0, 0, 0, 0] = downGas_val dVu dV ex_gas2 [0, 0, 0, 0, 0]"
    using vald by simp
  also have "\<dots> = 9 / 2"
    using p1 p2 by (simp add: downGas_val_def blk_sum_def ex_gas2_def)
  finally show ?thesis
    using down shd by (simp add: elem_of_def elem_def inb_def)
qed

section \<open>Claims about the reader\<close>

text \<open>
  C2.  The claim that \<^verbatim>\<open>GetVar\<close> multiplies by the scale factor in every mode fails in
  the sequential mode: on a serial pipe over one file that holds the value 1, the call
  with \<^verbatim>\<open>vScl = 2\<close> returns 1, the same as the call without a scale factor.
\<close>

theorem GetVar_sequential_ignores_scale:
  "elem_of [0, 0, 0] (GetVar ex_h5 [0] ex_pipe ''D'' (Some 0) (Some 2) True) = Some 1 \<and>
   elem_of [0, 0, 0] (GetVar ex_h5 [0] ex_pipe ''D'' (Some 0) None True) = Some 1"
  by (simp add: ex_GetVar_seq)

text \<open>
  C3.  On the same rank file and with the same arguments, scale factor 2 included, the
  sequential mode returns 1 and the concurrent mode returns 2: the two modes do not
  produce identical arrays.
\<close>

theorem GetVar_modes_differ_with_scale:
  "elem_of [0, 0, 0] (GetVar ex_h5 [0] ex_pipe_mpi ''D'' (Some 0) (Some 2) True) = Some 1 \<and>
   elem_of [0, 0, 0] (GetVarParallel ex_h5 [0] ex_pipe_mpi ''D'' (Some 0) (Some 2) True) = Some 2"
  by (simp add: ex_GetVar_mpi_seq ex_GetVarParallel)

text \<open>
  C9.  Let the direction string be none of IDIR, JDIR, KDIR after \<^verbatim>\<open>upper()\<close>.  Then
  \<^verbatim>\<open>GetSlice\<close> prints the warning and goes on as for IDIR: it raises only what reading
  the variable or taking \<^verbatim>\<open>V[n-1,:,:]\<close> raises.  When \<^verbatim>\<open>GetVar\<close> returns the
  three-dimensional array \<open>V\<close> and \<open>1 \<le> n \<le> Ni\<close>, the call returns the two-dimensional
  slice of shape \<open>(Nj,Nk)\<close> with the values \<open>V[n-1,j,k]\<close>, after printing the warning and,
  when verbose, the line of the read.  Output and result are those of the call with
  direction IDIR, the warning put in front.  A direction string whose upper-case form is
  a valid direction behaves as that direction, so the lower-case directions are accepted.
\<close>

theorem GetSlice_invalid_direction_defaults_to_I:
  "(str_upper ijkdir \<notin> set [ustr ''IDIR'', ustr ''JDIR'', ustr ''KDIR''] \<longrightarrow>
      GetSlice str_upper h5 order self vID sID ijkdir n vScl doVerb =
        (case GetVar h5 order self vID sID vScl False of
           None \<Rightarrow> ([''Invalid slice direction, defaulting to I''], None)
         | Some V \<Rightarrow>
            (case getitem V [Ix (n - 1), All, All] of
               None \<Rightarrow> ([''Invalid slice direction, defaulting to I''], None)
             | Some Vs \<Rightarrow>
                (''Invalid slice direction, defaulting to I'' #
                   (if doVerb
                    then [(case sID of
                             None \<Rightarrow> ''Reading '' @ self_ftag self @ ''/'' @ vID
                           | Some s \<Rightarrow> ''Reading '' @ self_ftag self @ ''/Step#'' @ str_int s
                                        @ ''/'' @ vID)
                          @ ''('' @ str_int n @ '',:,:)'']
                    else []),
                 Some Vs)))) \<and>
   (str_upper ijkdir \<notin> set [ustr ''IDIR'', ustr ''JDIR'', ustr ''KDIR''] \<and>
    GetVar h5 order self vID sID vScl False = Some V \<and>
    \<not> self_is2D self \<and> 1 \<le> n \<and> n \<le> int (self_Ni self) \<longrightarrow>
      (\<exists>Vs. GetSlice str_upper h5 order self vID sID ijkdir n vScl doVerb =
               (''Invalid slice direction, defaulting to I'' #
                  (if doVerb
                   then [(case sID of
                            None \<Rightarrow> ''Reading '' @ self_ftag self @ ''/'' @ vID
                          | Some s \<Rightarrow> ''Reading '' @ self_ftag self @ ''/Step#'' @ str_int s
                                       @ ''/'' @ vID)
                         @ ''('' @ str_int n @ '',:,:)'']
                   else []),
                Some Vs) \<and>
            shape Vs = [self_Nj self, self_Nk self] \<and>
            (\<forall>j k. data Vs [j, k] = data V [nat (n - 1), j, k]))) \<and>
   (str_upper ijkdir \<notin> set [ustr ''IDIR'', ustr ''JDIR'', ustr ''KDIR''] \<and>
    str_upper (ustr ''IDIR'') = ustr ''IDIR'' \<longrightarrow>
      GetSlice str_upper h5 order self vID sID ijkdir n vScl doVerb =
        (''Invalid slice direction, defaulting to I'' #
           fst (GetSlice str_upper h5 order self vID sID (ustr ''IDIR'') n vScl doVerb),
         snd (GetSlice str_upper h5 order self vID sID (ustr ''IDIR'') n vScl doVerb))) \<and>
   (str_upper ijkdir = d \<and> d \<in> set [ustr ''IDIR'', ustr ''JDIR'', ustr ''KDIR''] \<and>
    str_upper d = d \<longrightarrow>
      GetSlice str_upper h5 order self vID sID ijkdir n vScl doVerb =
        GetSlice str_upper h5 order self vID sID d n vScl doVerb)"
proof (intro conjI impI)
  assume inv: "str_upper ijkdir \<notin> set [ustr ''IDIR'', ustr ''JDIR'', ustr ''KDIR'']"
  then show "GetSlice str_upper h5 order self vID sID ijkdir n vScl doVerb =
        (case GetVar h5 order self vID sID vScl False of
           None \<Rightarrow> ([''Invalid slice direction, defaulting to I''], None)
         | Some V \<Rightarrow>
            (case getitem V [Ix (n - 1), All, All] of
               None \<Rightarrow> ([''Invalid slice direction, defaulting to I''], None)
             | Some Vs \<Rightarrow>
                (''Invalid slice direction, defaulting to I'' #
                   (if doVerb
                    then [(case sID of
                             None \<Rightarrow> ''Reading '' @ self_ftag self @ ''/'' @ vID
                           | Some s \<Rightarrow> ''Reading '' @ self_ftag self @ ''/Step#'' @ str_int s
                                        @ ''/'' @ vID)
                          @ ''('' @ str_int n @ '',:,:)'']
                    else []),
                 Some Vs)))"
    by (simp add: GetSlice_def Let_def split: option.splits)
next
  assume a: "str_upper ijkdir \<notin> set [ustr ''IDIR'', ustr ''JDIR'', ustr ''KDIR''] \<and>
    GetVar h5 order self vID sID vScl False = Some V \<and>
    \<not> self_is2D self \<and> 1 \<le> n \<and> n \<le> int (self_Ni self)"
  then have "shape V = [self_Ni self, self_Nj self, self_Nk self]"
    using GetVar_shape[of h5 order self vID sID vScl False V] by simp
  from getitem_slab[OF this] a obtain Vs where
    Vs: "getitem V [Ix (n - 1), All, All] = Some Vs" "shape Vs = [self_Nj self, self_Nk self]"
      "\<forall>j k. data Vs [j, k] = data V [nat (n - 1), j, k]"
    by blast
  show "\<exists>Vs. GetSlice str_upper h5 order self vID sID ijkdir n vScl doVerb =
               (''Invalid slice direction, defaulting to I'' #
                  (if doVerb
                   then [(case sID of
                            None \<Rightarrow> ''Reading '' @ self_ftag self @ ''/'' @ vID
                          | Some s \<Rightarrow> ''Reading '' @ self_ftag self @ ''/Step#'' @ str_int s
                                       @ ''/'' @ vID)
                         @ ''('' @ str_int n @ '',:,:)'']
                   else []),
                Some Vs) \<and>
            shape Vs = [self_Nj self, self_Nk self] \<and>
            (\<forall>j k. data Vs [j, k] = data V [nat (n - 1), j, k])"
    using a Vs by (simp add: GetSlice_def Let_def)
next
  assume "str_upper ijkdir \<notin> set [ustr ''IDIR'', ustr ''JDIR'', ustr ''KDIR''] \<and>
    str_upper (ustr ''IDIR'') = ustr ''IDIR''"
  then show "GetSlice str_upper h5 order self vID sID ijkdir n vScl doVerb =
        (''Invalid slice direction, defaulting to I'' #
           fst (GetSlice str_upper h5 order self vID sID (ustr ''IDIR'') n vScl doVerb),
         snd (GetSlice str_upper h5 order self vID sID (ustr ''IDIR'') n vScl doVerb))"
    by (simp add: GetSlice_def Let_def split: option.splits)
next
  assume "str_upper ijkdir = d \<and> d \<in> set [ustr ''IDIR'', ustr ''JDIR'', ustr ''KDIR''] \<and>
    str_upper d = d"
  then show "GetSlice str_upper h5 order self vID sID ijkdir n vScl doVerb =
        GetSlice str_upper h5 order self vID sID d n vScl doVerb"
    by (simp add: GetSlice_def Let_def)
qed


theorem GetSlice_invalid_direction_defaults_to_I_witness:
  "ex_upper (ustr ''xdir'') \<notin> set [ustr ''IDIR'', ustr ''JDIR'', ustr ''KDIR''] \<and>
   (\<exists>Vs. GetSlice ex_upper ex_h5 [0] ex_pipe ''D'' (Some 0) (ustr ''xdir'') 1 None True =
            ([''Invalid slice direction, defaulting to I'', ''Reading msphere/Step#0/D(1,:,:)''],
             Some Vs) \<and>
          shape Vs = [1, 1] \<and> data Vs [0, 0] = 1 \<and>
          GetSlice ex_upper ex_h5 [0] ex_pipe ''D'' (Some 0) (ustr ''IDIR'') 1 None True =
            ([''Reading msphere/Step#0/D(1,:,:)''], Some Vs) \<and>
          GetSlice ex_upper ex_h5 [0] ex_pipe ''D'' (Some 0) (ustr ''idir'') 1 None True =
            ([''Reading msphere/Step#0/D(1,:,:)''], Some Vs) \<and>
          GetSlice ex_upper ex_h5 [0] ex_pipe ''D'' (Some 0) [305, 100, 305, 114] 1 None True =
            ([''Reading msphere/Step#0/D(1,:,:)''], Some Vs))"
proof -
  let ?dirs = "[ustr ''IDIR'', ustr ''JDIR'', ustr ''KDIR'']"
  obtain V where V: "GetVar ex_h5 [0] ex_pipe ''D'' (Some 0) None False = Some V"
      "data V [0, 0, 0] = 1"
    using ex_GetVar_value by blast
  have inv: "ex_upper (ustr ''xdir'') \<notin> set ?dirs"
    by (simp add: ex_upper_dirs(1) ustr_dirs)
  have mem: "ustr ''IDIR'' \<in> set ?dirs"
    by simp
  have pipe: "\<not> self_is2D ex_pipe" "(1::int) \<le> 1" "1 \<le> int (self_Ni ex_pipe)"
      "self_Nj ex_pipe = 1" "self_Nk ex_pipe = 1"
    by (simp_all add: ex_pipe_def)
  have line: "(case Some 0 of
                 None \<Rightarrow> ''Reading '' @ self_ftag ex_pipe @ ''/'' @ ''D''
               | Some s \<Rightarrow> ''Reading '' @ self_ftag ex_pipe @ ''/Step#'' @ str_int s @ ''/'' @ ''D'')
              @ ''('' @ str_int 1 @ '',:,:)'' = ''Reading msphere/Step#0/D(1,:,:)''"
    by (simp add: ex_pipe_def str_int_def)
  note T1 = GetSlice_invalid_direction_defaults_to_I[of ex_upper "ustr ''xdir''" ex_h5 "[0]" ex_pipe
      "''D''" "Some 0" 1 None True V "ustr ''IDIR''"]
  note T2 = GetSlice_invalid_direction_defaults_to_I[of ex_upper "ustr ''idir''" ex_h5 "[0]" ex_pipe
      "''D''" "Some 0" 1 None True V "ustr ''IDIR''"]
  note T3 = GetSlice_invalid_direction_defaults_to_I[of ex_upper "[305, 100, 305, 114]" ex_h5 "[0]" ex_pipe
      "''D''" "Some 0" 1 None True V "ustr ''IDIR''"]
  from T1 inv V(1) pipe(1-3) obtain Vs where
    x: "GetSlice ex_upper ex_h5 [0] ex_pipe ''D'' (Some 0) (ustr ''xdir'') 1 None True =
          ([''Invalid slice direction, defaulting to I'', ''Reading msphere/Step#0/D(1,:,:)''],
           Some Vs)"
    and sh: "shape Vs = [self_Nj ex_pipe, self_Nk ex_pipe]"
    and d: "\<forall>j k. data Vs [j, k] = data V [nat (1 - 1), j, k]"
    unfolding line by (simp only: if_True) blast
  have I: "GetSlice ex_upper ex_h5 [0] ex_pipe ''D'' (Some 0) (ustr ''IDIR'') 1 None True =
            ([''Reading msphere/Step#0/D(1,:,:)''], Some Vs)"
    using T1 inv ex_upper_dirs(3) x
    by (cases "GetSlice ex_upper ex_h5 [0] ex_pipe ''D'' (Some 0) (ustr ''IDIR'') 1 None True")
       simp
  have i: "GetSlice ex_upper ex_h5 [0] ex_pipe ''D'' (Some 0) (ustr ''idir'') 1 None True =
            ([''Reading msphere/Step#0/D(1,:,:)''], Some Vs)"
    using T2 ex_upper_dirs(2,3) mem I by simp
  have u: "GetSlice ex_upper ex_h5 [0] ex_pipe ''D'' (Some 0) [305, 100, 305, 114] 1 None True =
            ([''Reading msphere/Step#0/D(1,:,:)''], Some Vs)"
    using T3 ex_upper_dirs(3,4) mem I by simp
  have "shape Vs = [1, 1]" "data Vs [0, 0] = 1"
    using sh d V(2) pipe(4,5) by simp_all
  then show ?thesis
    using inv x I i u by blast
qed

section \<open>Claims about the auxiliary fields\<close>

text \<open>
  C7 (as amended).  \<^verbatim>\<open>upVolt\<close> accepts a plain four-axis field and a five-axis field
  with a trailing history axis: it replicates every value over its 2 by 2 block in
  \<open>k\<close> and \<open>j\<close>, for each index of the history axis when there is one, and returns
  shape \<open>(Nd,2Nk,2Nj,Ni)\<close> or \<open>(Nd,2Nk,2Nj,Ni,Nh)\<close>.  \<^verbatim>\<open>downVolt\<close> accepts the four-axis
  field only: it returns the 2 by 2 block means with shape \<open>(Nd,Nk div 2,Nj div 2,Ni)\<close>,
  and raises on a five-axis field.
\<close>

theorem upVolt_both_ranks_downVolt_rank4:
  "(shape G = [Nd, Nk, Nj, Ni] \<longrightarrow>
      (\<exists>Gu. upVolt G = Some Gu \<and> shape Gu = [Nd, 2*Nk, 2*Nj, Ni] \<and>
         (\<forall>d<Nd. \<forall>kf<2*Nk. \<forall>jf<2*Nj. \<forall>i<Ni.
            data Gu [d, kf, jf, i] = data G [d, kf div 2, jf div 2, i])) \<and>
      (\<exists>Gd. downVolt G = Some Gd \<and> shape Gd = [Nd, Nk div 2, Nj div 2, Ni] \<and>
         (\<forall>d<Nd. \<forall>k<Nk div 2. \<forall>j<Nj div 2. \<forall>i<Ni.
            data Gd [d, k, j, i] =
              (data G [d, 2*k, 2*j, i] + data G [d, 2*k, 2*j + 1, i] +
               data G [d, 2*k + 1, 2*j, i] + data G [d, 2*k + 1, 2*j + 1, i]) / 4))) \<and>
   (shape G = [Nd, Nk, Nj, Ni, Nh] \<longrightarrow>
      (\<exists>Gu. upVolt G = Some Gu \<and> shape Gu = [Nd, 2*Nk, 2*Nj, Ni, Nh] \<and>
         (\<forall>d<Nd. \<forall>kf<2*Nk. \<forall>jf<2*Nj. \<forall>i<Ni. \<forall>h<Nh.
            data Gu [d, kf, jf, i, h] = data G [d, kf div 2, jf div 2, i, h])) \<and>
      downVolt G = None)"
proof (intro conjI impI)
  assume G: "shape G = [Nd, Nk, Nj, Ni]"
  obtain Gu where u: "upVolt4 G = Some Gu" "shape Gu = [Nd, 2*Nk, 2*Nj, Ni]"
     "\<forall>d kf jf i. d < Nd \<longrightarrow> kf < 2*Nk \<longrightarrow> jf < 2*Nj \<longrightarrow> i < Ni \<longrightarrow>
              data Gu [d, kf, jf, i] = data G [d, kf div 2, jf div 2, i]"
    using upVolt4_run[OF G] by blast
  have "upVolt G = Some Gu"
    by (simp add: upVolt_def u(1))
  then show "\<exists>Gu. upVolt G = Some Gu \<and> shape Gu = [Nd, 2*Nk, 2*Nj, Ni] \<and>
         (\<forall>d<Nd. \<forall>kf<2*Nk. \<forall>jf<2*Nj. \<forall>i<Ni.
            data Gu [d, kf, jf, i] = data G [d, kf div 2, jf div 2, i])"
    using u(2,3) by blast
  obtain Gd where d: "downVolt G = Some Gd" "shape Gd = [Nd, Nk div 2, Nj div 2, Ni]"
     "\<forall>d k j i. d < Nd \<longrightarrow> k < Nk div 2 \<longrightarrow> j < Nj div 2 \<longrightarrow> i < Ni \<longrightarrow>
              data Gd [d, k, j, i] = downVolt_val G [d, k, j, i]"
    using downVolt_run[OF G] by blast
  have "data Gd [d, k, j, i] =
              (data G [d, 2*k, 2*j, i] + data G [d, 2*k, 2*j + 1, i] +
               data G [d, 2*k + 1, 2*j, i] + data G [d, 2*k + 1, 2*j + 1, i]) / 4"
    if "d < Nd" "k < Nk div 2" "j < Nj div 2" "i < Ni" for d k j i
    using d(3) that by (simp add: downVolt_val_def)
  then show "\<exists>Gd. downVolt G = Some Gd \<and> shape Gd = [Nd, Nk div 2, Nj div 2, Ni] \<and>
         (\<forall>d<Nd. \<forall>k<Nk div 2. \<forall>j<Nj div 2. \<forall>i<Ni.
            data Gd [d, k, j, i] =
              (data G [d, 2*k, 2*j, i] + data G [d, 2*k, 2*j + 1, i] +
               data G [d, 2*k + 1, 2*j, i] + data G [d, 2*k + 1, 2*j + 1, i]) / 4)"
    using d(1,2) by blast
next
  assume G: "shape G = [Nd, Nk, Nj, Ni, Nh]"
  obtain Gu where u: "upVolt5 G = Some Gu" "shape Gu = [Nd, 2*Nk, 2*Nj, Ni, Nh]"
     "\<forall>d kf jf i h. d < Nd \<longrightarrow> kf < 2*Nk \<longrightarrow> jf < 2*Nj \<longrightarrow> i < Ni \<longrightarrow> h < Nh \<longrightarrow>
              data Gu [d, kf, jf, i, h] = data G [d, kf div 2, jf div 2, i, h]"
    using upVolt5_run[OF G] by blast
  have "upVolt4 G = None"
    by (simp add: upVolt4_def G)
  then have "upVolt G = Some Gu"
    by (simp add: upVolt_def u(1))
  then show "\<exists>Gu. upVolt G = Some Gu \<and> shape Gu = [Nd, 2*Nk, 2*Nj, Ni, Nh] \<and>
         (\<forall>d<Nd. \<forall>kf<2*Nk. \<forall>jf<2*Nj. \<forall>i<Ni. \<forall>h<Nh.
            data Gu [d, kf, jf, i, h] = data G [d, kf div 2, jf div 2, i, h])"
    using u(2,3) by blast
  show "downVolt G = None"
    by (simp add: downVolt_def G)
qed

theorem upVolt_both_ranks_downVolt_rank4_witness:
  "shape ex_avg = [1, 2, 2, 1] \<and>
   (\<exists>Gu. upVolt ex_avg = Some Gu \<and> shape Gu = [1, 2*2, 2*2, 1] \<and>
         (\<forall>d<1. \<forall>kf<2*2. \<forall>jf<2*2. \<forall>i<1.
            data Gu [d, kf, jf, i] = data ex_avg [d, kf div 2, jf div 2, i])) \<and>
   (\<exists>Gd. downVolt ex_avg = Some Gd \<and> shape Gd = [1, 2 div 2, 2 div 2, 1] \<and>
         (\<forall>d<1. \<forall>k<2 div 2. \<forall>j<2 div 2. \<forall>i<1.
            data Gd [d, k, j, i] =
              (data ex_avg [d, 2*k, 2*j, i] + data ex_avg [d, 2*k, 2*j + 1, i] +
               data ex_avg [d, 2*k + 1, 2*j, i] + data ex_avg [d, 2*k + 1, 2*j + 1, i]) / 4)) \<and>
   shape ex_hist = [1, 2, 2, 1, 2] \<and>
   (\<exists>Gu. upVolt ex_hist = Some Gu \<and> shape Gu = [1, 2*2, 2*2, 1, 2] \<and>
         (\<forall>d<1. \<forall>kf<2*2. \<forall>jf<2*2. \<forall>i<1. \<forall>h<2.
            data Gu [d, kf, jf, i, h] = data ex_hist [d, kf div 2, jf div 2, i, h])) \<and>
   downVolt ex_hist = None"
proof -
  have a: "shape ex_avg = [1, 2, 2, 1]" and h: "shape ex_hist = [1, 2, 2, 1, 2]"
    by (simp_all add: ex_avg_def ex_hist_def)
  show ?thesis
    using upVolt_both_ranks_downVolt_rank4[of ex_avg 1 2 2 1 2]
      upVolt_both_ranks_downVolt_rank4[of ex_hist 1 2 2 1 2] a h
    by blast
qed

text \<open>
  C7 as stated fails for \<^verbatim>\<open>downVolt\<close>: on a field of shape \<open>(1,2,2,1,2)\<close>, with a
  history axis, it raises instead of returning a result.
\<close>

theorem downVolt_history_axis_counterexample:
  "downVolt ex_hist = None"
  by (simp add: downVolt_def ex_hist_def)

section \<open>Claims about the magnetic fluxes\<close>

text \<open>
  C5.  When the discrete divergence of a fine flux state \<open>M\<close>, as \<^verbatim>\<open>MaxDiv\<close> computes it,
  is zero at every fine cell, \<^verbatim>\<open>downFlux\<close> succeeds; the halved flux state has
  \<open>(N - 1) div 2 + 1\<close> faces along each axis; on each of the six faces of every coarse
  cell \<open>(k,j,i)\<close> it holds the sum of the four fine face fluxes that make up that face
  (\<open>downFlux_val\<close>: the fine faces \<open>2k, 2k+1\<close> by \<open>2j, 2j+1\<close> at \<open>2i\<close> for an I face,
  and likewise for J and K faces); and its divergence is zero at every coarse cell, in
  exact arithmetic.  \<^verbatim>\<open>MaxDiv\<close> returns that divergence whenever there is a coarse
  cell at all (it raises on an empty array).
\<close>

theorem downFlux_preserves_zero_divergence:
  assumes "shape M = [Nd, Nkc, Njc, Nic]"
    and "MaxDiv M = Some D"
    and "\<forall>idx. inb (shape D) idx \<longrightarrow> data D idx = 0"
  shows "\<exists>Md. downFlux X Y Z M Xu Yu Zu = Some Md \<and>
           shape Md = [Nd, (Nkc - 1) div 2 + 1, (Njc - 1) div 2 + 1, (Nic - 1) div 2 + 1] \<and>
           (\<forall>k<(Nkc - 1) div 2. \<forall>j<(Njc - 1) div 2. \<forall>i<(Nic - 1) div 2.
              \<forall>x. in_dface k j i x \<longrightarrow> data Md x = downFlux_val M x) \<and>
           (\<forall>Dd. MaxDiv Md = Some Dd \<longrightarrow> (\<forall>idx. inb (shape Dd) idx \<longrightarrow> data Dd idx = 0)) \<and>
           (3 \<le> Nkc \<and> 3 \<le> Njc \<and> 3 \<le> Nic \<longrightarrow> MaxDiv Md \<noteq> None)"
proof -
  let ?K = "(Nkc - 1) div 2" and ?J = "(Njc - 1) div 2" and ?I = "(Nic - 1) div 2"
  have c: "3 \<le> Nd" "2 \<le> Nkc" "2 \<le> Njc" "2 \<le> Nic"
    using MaxDiv_Some[OF assms(2,1)] by simp_all
  obtain D' where D': "MaxDiv M = Some D'" "shape D' = [Nkc - 1, Njc - 1, Nic - 1]"
      "\<forall>k j i. k < Nkc - 1 \<longrightarrow> j < Njc - 1 \<longrightarrow> i < Nic - 1 \<longrightarrow>
              data D' [k, j, i] = div_val M [k, j, i]"
    using MaxDiv_run[OF assms(1) c] by blast
  have DD: "D' = D" using D'(1) assms(2) by simp
  have fine: "div_val M [kf, jf, if'] = 0" if "kf < Nkc - 1" "jf < Njc - 1" "if' < Nic - 1"
    for kf jf if'
  proof -
    have "inb (shape D) [kf, jf, if']"
      using that D'(2) DD by (simp add: inb3)
    then show ?thesis
      using assms(3) D'(3) DD that by metis
  qed
  obtain Md where Md: "downFlux X Y Z M Xu Yu Zu = Some Md"
      "shape Md = [Nd, ?K + 1, ?J + 1, ?I + 1]"
      "\<forall>k j i x. k < ?K \<longrightarrow> j < ?J \<longrightarrow> i < ?I \<longrightarrow> in_dface k j i x \<longrightarrow>
          data Md x = downFlux_val M x"
    using downFlux_run[OF assms(1) c(1)] c(2-4) by (metis One_nat_def Suc_1 Suc_leD)
  have coarse: "div_val Md [k, j, i] = 0" if b: "k < ?K" "j < ?J" "i < ?I" for k j i
  proof -
    have cd: "div_val Md [k, j, i] = blk_sum (div_val M) k j i"
      using Md(3) b by (intro coarse_divergence) blast
    have fz: "div_val M [2*k + a, 2*j + b, 2*i + c] = 0" if "a < 2" "b < 2" "c < 2" for a b c
      using b that by (intro fine) auto
    show ?thesis
      using cd fz[of 0 0 0] fz[of 0 0 1] fz[of 0 1 0] fz[of 0 1 1]
        fz[of 1 0 0] fz[of 1 0 1] fz[of 1 1 0] fz[of 1 1 1]
      by (simp add: blk_sum_def)
  qed
  have zero: "\<forall>idx. inb (shape Dd) idx \<longrightarrow> data Dd idx = 0" if Dd: "MaxDiv Md = Some Dd" for Dd
  proof -
    have n: "3 \<le> Nd" "2 \<le> ?K + 1" "2 \<le> ?J + 1" "2 \<le> ?I + 1"
      using MaxDiv_Some[OF Dd Md(2)] by simp_all
    obtain E where E: "MaxDiv Md = Some E" "shape E = [?K + 1 - 1, ?J + 1 - 1, ?I + 1 - 1]"
      "\<forall>k j i. k < ?K + 1 - 1 \<longrightarrow> j < ?J + 1 - 1 \<longrightarrow> i < ?I + 1 - 1 \<longrightarrow>
              data E [k, j, i] = div_val Md [k, j, i]"
      using MaxDiv_run[OF Md(2) n] by blast
    have "E = Dd" using E(1) Dd by simp
    then show ?thesis
      using E(2,3) coarse by (auto simp: inb3)
  qed
  have some: "MaxDiv Md \<noteq> None" if "3 \<le> Nkc \<and> 3 \<le> Njc \<and> 3 \<le> Nic"
  proof -
    have "2 \<le> ?K + 1" "2 \<le> ?J + 1" "2 \<le> ?I + 1"
      using that by auto
    then show ?thesis
      using MaxDiv_run[OF Md(2) c(1)] by fastforce
  qed
  have faces: "\<forall>k<?K. \<forall>j<?J. \<forall>i<?I. \<forall>x. in_dface k j i x \<longrightarrow> data Md x = downFlux_val M x"
    using Md(3) by blast
  show ?thesis
    using Md(1,2) faces zero some by blast
qed

theorem downFlux_preserves_zero_divergence_witness:
  "\<exists>D Md Dd. MaxDiv ex_flux2 = Some D \<and>
      downFlux (ex_X 2 1) (ex_Y 2 1) (ex_Z 2 1) ex_flux2
        (ex_X 1 2) (ex_Y 1 2) (ex_Z 1 2) = Some Md \<and>
      shape Md = [3, 2, 2, 2] \<and>
      data Md [IDIR, 0, 0, 0] = 4 \<and> data Md [IDIR, 0, 0, 1] = 4 \<and>
      data Md [JDIR, 0, 0, 0] = 0 \<and> data Md [JDIR, 0, 1, 0] = 0 \<and>
      data Md [KDIR, 0, 0, 0] = 0 \<and> data Md [KDIR, 1, 0, 0] = 0 \<and>
      MaxDiv Md = Some Dd \<and> shape Dd = [1, 1, 1] \<and> data Dd [0, 0, 0] = 0"
proof -
  have sh: "shape ex_flux2 = [3, 3, 3, 3]"
    by (simp add: ex_flux2_def)
  obtain D where D: "MaxDiv ex_flux2 = Some D" "shape D = [3 - 1, 3 - 1, 3 - 1]"
      "\<forall>k j i. k < 3 - 1 \<longrightarrow> j < 3 - 1 \<longrightarrow> i < 3 - 1 \<longrightarrow> data D [k, j, i] = div_val ex_flux2 [k, j, i]"
    using MaxDiv_run[OF sh] by fastforce
  have "div_val ex_flux2 [k, j, i] = 0" for k j i
    by (simp add: div_val_def ex_flux2_def IDIR_def JDIR_def KDIR_def)
  then have z: "\<forall>idx. inb (shape D) idx \<longrightarrow> data D idx = 0"
    using D(2,3) by (auto simp: inb3)
  obtain Md where Md: "downFlux (ex_X 2 1) (ex_Y 2 1) (ex_Z 2 1) ex_flux2
        (ex_X 1 2) (ex_Y 1 2) (ex_Z 1 2) = Some Md"
      "shape Md = [3, (3 - 1) div 2 + 1, (3 - 1) div 2 + 1, (3 - 1) div 2 + 1]"
      "\<forall>k<(3 - 1) div 2. \<forall>j<(3 - 1) div 2. \<forall>i<(3 - 1) div 2.
          \<forall>x. in_dface k j i x \<longrightarrow> data Md x = downFlux_val ex_flux2 x"
      "\<forall>Dd. MaxDiv Md = Some Dd \<longrightarrow> (\<forall>idx. inb (shape Dd) idx \<longrightarrow> data Dd idx = 0)"
      "MaxDiv Md \<noteq> None"
    using downFlux_preserves_zero_divergence[OF sh D(1) z, of "ex_X 2 1" "ex_Y 2 1" "ex_Z 2 1"
        "ex_X 1 2" "ex_Y 1 2" "ex_Z 1 2"]
    by auto
  obtain Dd where Dd: "MaxDiv Md = Some Dd"
    using Md(5) by blast
  have s2: "shape Md = [3, 2, 2, 2]"
    using Md(2) by simp
  have f: "data Md x = downFlux_val ex_flux2 x" if "in_dface 0 0 0 x" for x
    using Md(3) that by simp
  have v: "data Md [IDIR, 0, 0, 0] = 4" "data Md [IDIR, 0, 0, 1] = 4"
      "data Md [JDIR, 0, 0, 0] = 0" "data Md [JDIR, 0, 1, 0] = 0"
      "data Md [KDIR, 0, 0, 0] = 0" "data Md [KDIR, 1, 0, 0] = 0"
    by (simp_all add: f in_dface_def downFlux_val_def ex_flux2_def IDIR_def JDIR_def KDIR_def)
  have "shape Dd = [2 - 1, 2 - 1, 2 - 1]"
    using MaxDiv_run[OF s2] Dd by fastforce
  then have s3: "shape Dd = [1, 1, 1]"
    by simp
  then have "data Dd [0, 0, 0] = 0"
    using Md(4) Dd by (simp add: inb3)
  then show ?thesis
    using D(1) Md(1) s2 v Dd s3 by blast
qed
end
